theory Spec2Isabelle
  imports Complex_Main "HOL-Library.Log_Nat"
begin

section \<open>Python values used by the weather CLI\<close>

text \<open>
  A Python \<^verbatim>\<open>str\<close> is a sequence of Unicode code points. The palette glyphs
  (U+2581 .. U+2588) and the dash placeholder (U+2014) do not fit the 8-bit characters of
  \<^typ>\<open>string\<close>, so a Python string is a list of code points; \<open>u\<close> embeds an
  ASCII literal.
\<close>

type_synonym ustr = "nat list"

definition u :: "string \<Rightarrow> ustr" where
  "u s = map of_char s"

text \<open>
  The exceptions the two scripts can raise. \<open>HTTPError\<close> is the subclass of
  \<open>RequestException\<close> that \<^verbatim>\<open>raise_for_status\<close> raises; \<open>RequestError\<close> stands
  for every other \<open>requests.RequestException\<close> (timeout, connection failure).
\<close>

datatype error =
    ValueError ustr
  | TypeError ustr
  | IndexError ustr
  | KeyError ustr
  | ZeroDivisionError ustr
  | OverflowError ustr
  | HTTPError ustr
  | RequestError ustr

text \<open>
  A key of a JSON object read with \<^verbatim>\<open>d.get(k, default)\<close>: the key can be absent
  (the default is used), present with the value \<^verbatim>\<open>None\<close> (the default is NOT used),
  or present with a value.
\<close>

datatype 'a jfield = Absent | Null | Val 'a

section \<open>The fallback payload and the canonical snapshot\<close>

text \<open>One element of a \<^verbatim>\<open>"weather"\<close> list; \<^verbatim>\<open>{}\<close> has neither key.\<close>

record wx =
  wx_main :: "ustr option"
  wx_description :: "ustr option"

definition empty_wx :: wx where
  "empty_wx = \<lparr>wx_main = None, wx_description = None\<rparr>"

text \<open>
  One 3-hour entry of \<^verbatim>\<open>fr["list"]\<close>. \<open>None\<close> is what \<^verbatim>\<open>.get\<close> returns for a
  missing key; \<open>i_weather = None\<close> is a missing \<^verbatim>\<open>"weather"\<close> key and
  \<open>Some []\<close> an empty list. A missing \<^verbatim>\<open>"main"\<close> object reads as three missing
  temperatures (\<^verbatim>\<open>item.get("main",{}).get(...)\<close>).
\<close>

record item =
  i_dt :: "int option"
  i_temp :: "rat option"
  i_temp_min :: "rat option"
  i_temp_max :: "rat option"
  i_weather :: "wx list option"

text \<open>The \<^verbatim>\<open>/weather\<close> response (current conditions).\<close>

record cur_payload =
  c_dt :: "int option"
  c_temp :: "rat option"
  c_feels_like :: "rat option"
  c_humidity :: "int option"
  c_wind_speed :: "rat option"
  c_weather :: "wx list option"

text \<open>The OneCall-like dictionary both renderers read.\<close>

record current =
  cur_dt :: "int jfield"
  cur_temp :: "rat jfield"
  cur_feels_like :: "rat jfield"
  cur_humidity :: "int jfield"
  cur_wind_speed :: "rat jfield"
  cur_weather :: "wx list jfield"

record hour =
  h_dt :: "int option"
  h_temp :: "rat option"
  h_weather :: "wx list"

record day =
  d_dt :: int
  d_min :: "rat option"
  d_max :: "rat option"
  d_weather :: "wx list"

record snapshot =
  s_current :: current
  s_hourly :: "hour list"
  s_daily :: "day list"
  s_timezone_offset :: int

section \<open>fetch_weather_and_forecast: the hourly part\<close>

definition hour_of :: "item \<Rightarrow> hour" where
  "hour_of it = \<lparr>h_dt = i_dt it, h_temp = i_temp it,
     h_weather = (case i_weather it of None \<Rightarrow> [] | Some ws \<Rightarrow> ws)\<rparr>"

text \<open>
  \<^verbatim>\<open>for item in fr_list: hourly.append({...}); if len(hourly) >= 24: break\<close>
\<close>

fun hourly_loop :: "item list \<Rightarrow> hour list \<Rightarrow> hour list" where
  "hourly_loop [] hourly = hourly"
| "hourly_loop (it # rest) hourly =
     (let hourly' = hourly @ [hour_of it]
      in if length hourly' \<ge> 24 then hourly' else hourly_loop rest hourly')"

text \<open>\<^verbatim>\<open>while len(hourly) < 24: hourly.append(last)\<close>\<close>

function pad_loop :: "hour \<Rightarrow> hour list \<Rightarrow> hour list" where
  "pad_loop lst hourly =
     (if length hourly < 24 then pad_loop lst (hourly @ [lst]) else hourly)"
  by pat_completeness auto
termination
  by (relation "measure (\<lambda>(lst, hourly). 24 - length hourly)") auto

declare pad_loop.simps [simp del]

definition build_hourly :: "item list \<Rightarrow> hour list" where
  "build_hourly fr_list =
     (let hourly = hourly_loop fr_list []
      in if hourly \<noteq> [] \<and> length hourly < 24 then pad_loop (last hourly) hourly
         else hourly)"

section \<open>fetch_weather_and_forecast: the daily part\<close>

text \<open>
  \<^verbatim>\<open>datetime.utcfromtimestamp(dt).date()\<close>: a date is represented by its day number
  (days since 1970-01-01), which orders dates as Python does. The call raises outside the
  years 1 .. 9999.
\<close>

definition utc_date :: "int \<Rightarrow> error + int" where
  "utc_date dt =
     (if dt < - 62135596800 \<or> 253402300799 < dt
      then Inl (ValueError (u ''year is out of range''))
      else Inr (dt div 86400))"

text \<open>\<^verbatim>\<open>item.get("weather",[{}])[0]\<close>\<close>

definition first_weather :: "item \<Rightarrow> error + wx" where
  "first_weather it =
     (case i_weather it of
        None \<Rightarrow> Inr empty_wx
      | Some [] \<Rightarrow> Inl (IndexError (u ''list index out of range''))
      | Some (w # _) \<Rightarrow> Inr w)"

record group =
  temps :: "(rat option \<times> rat option) list"
  weathers :: "wx list"
  dts :: "int list"

definition empty_group :: group where
  "empty_group = \<lparr>temps = [], weathers = [], dts = []\<rparr>"

text \<open>
  \<^verbatim>\<open>daily_map\<close> is a dictionary keyed by date, kept as an association list in
  insertion order with distinct keys. \<open>setdefault\<close> adds an empty group for a new day.
\<close>

definition setdefault :: "int \<Rightarrow> (int \<times> group) list \<Rightarrow> (int \<times> group) list" where
  "setdefault k m = (if k \<in> fst ` set m then m else m @ [(k, empty_group)])"

definition append_entry ::
  "int \<Rightarrow> (rat option \<times> rat option) \<Rightarrow> wx \<Rightarrow> int \<Rightarrow> (int \<times> group) list \<Rightarrow> (int \<times> group) list" where
  "append_entry k t w dt m =
     map (\<lambda>(k', g). if k' = k
            then (k', g\<lparr>temps := temps g @ [t], weathers := weathers g @ [w], dts := dts g @ [dt]\<rparr>)
            else (k', g)) m"

fun daily_map_loop :: "item list \<Rightarrow> (int \<times> group) list \<Rightarrow> error + (int \<times> group) list" where
  "daily_map_loop [] m = Inr m"
| "daily_map_loop (it # rest) m =
     (case i_dt it of
        None \<Rightarrow> Inl (TypeError (u ''an integer is required (got type NoneType)''))
      | Some dt \<Rightarrow>
         (case utc_date dt of
            Inl e \<Rightarrow> Inl e
          | Inr dy \<Rightarrow>
             (case first_weather it of
                Inl e \<Rightarrow> Inl e
              | Inr w \<Rightarrow>
                 daily_map_loop rest
                   (append_entry dy (i_temp_min it, i_temp_max it) w dt (setdefault dy m)))))"

text \<open>
  Python's \<^verbatim>\<open>min\<close> and \<^verbatim>\<open>max\<close> on a list of numbers: a left-to-right scan that
  keeps the first extreme value, and a \<open>ValueError\<close> on the empty list.
\<close>

fun py_min :: "rat list \<Rightarrow> error + rat" where
  "py_min [] = Inl (ValueError (u ''min() arg is an empty sequence''))"
| "py_min (x # xs) = Inr (fold (\<lambda>y m. if y < m then y else m) xs x)"

fun py_max :: "rat list \<Rightarrow> error + rat" where
  "py_max [] = Inl (ValueError (u ''max() arg is an empty sequence''))"
| "py_max (x # xs) = Inr (fold (\<lambda>y m. if m < y then y else m) xs x)"

text \<open>\<^verbatim>\<open>min(mins) if mins else None\<close>\<close>

definition opt_extreme :: "(rat list \<Rightarrow> error + rat) \<Rightarrow> rat list \<Rightarrow> error + rat option" where
  "opt_extreme f vs =
     (if vs \<noteq> [] then (case f vs of Inl e \<Rightarrow> Inl e | Inr v \<Rightarrow> Inr (Some v)) else Inr None)"

definition day_entry :: "int \<Rightarrow> group \<Rightarrow> error + day" where
  "day_entry now g =
     (let mins = List.map_filter fst (temps g);
          maxs = List.map_filter snd (temps g)
      in case opt_extreme py_min mins of
           Inl e \<Rightarrow> Inl e
         | Inr tmin \<Rightarrow>
            (case opt_extreme py_max maxs of
               Inl e \<Rightarrow> Inl e
             | Inr tmax \<Rightarrow>
                (let mid_idx = length (weathers g) div 2;
                     w = (if weathers g \<noteq> [] then weathers g ! mid_idx else empty_wx);
                     dt_val = (if dts g \<noteq> [] then dts g ! mid_idx else now)
                 in Inr \<lparr>d_dt = dt_val, d_min = tmin, d_max = tmax, d_weather = [w]\<rparr>)))"

text \<open>
  \<^verbatim>\<open>for day in sorted(daily_map.keys()): group = daily_map[day]; ...; daily.append({...})\<close>
\<close>

fun daily_loop :: "int \<Rightarrow> int list \<Rightarrow> (int \<times> group) list \<Rightarrow> day list \<Rightarrow> error + day list" where
  "daily_loop now [] m daily = Inr daily"
| "daily_loop now (k # ks) m daily =
     (case map_of m k of
        None \<Rightarrow> Inl (KeyError [])
      | Some g \<Rightarrow>
         (case day_entry now g of
            Inl e \<Rightarrow> Inl e
          | Inr d \<Rightarrow> daily_loop now ks m (daily @ [d])))"

definition build_daily :: "int \<Rightarrow> item list \<Rightarrow> error + day list" where
  "build_daily now fr_list =
     (case daily_map_loop fr_list [] of
        Inl e \<Rightarrow> Inl e
      | Inr m \<Rightarrow> daily_loop now (sort (map fst m)) m [])"

text \<open>
  The part of \<^verbatim>\<open>fetch_weather_and_forecast\<close> after the two HTTP calls: \<open>cur\<close> and
  \<open>fr_list\<close> are the decoded responses (\<^verbatim>\<open>fr.get("list", [])\<close>), \<open>now\<close> is
  \<^verbatim>\<open>int(time.time())\<close>. Every key of \<^verbatim>\<open>"current"\<close> is written, with
  \<^verbatim>\<open>None\<close> where the response had no value.
\<close>

definition to_field :: "'a option \<Rightarrow> 'a jfield" where
  "to_field x = (case x of None \<Rightarrow> Null | Some v \<Rightarrow> Val v)"

definition normalize_fallback :: "int \<Rightarrow> cur_payload \<Rightarrow> item list \<Rightarrow> error + snapshot" where
  "normalize_fallback now cur fr_list =
     (let hourly = build_hourly fr_list
      in case build_daily now fr_list of
           Inl e \<Rightarrow> Inl e
         | Inr daily \<Rightarrow>
             Inr \<lparr>s_current =
                    \<lparr>cur_dt = to_field (c_dt cur),
                     cur_temp = to_field (c_temp cur),
                     cur_feels_like = to_field (c_feels_like cur),
                     cur_humidity = to_field (c_humidity cur),
                     cur_wind_speed = to_field (c_wind_speed cur),
                     cur_weather = Val (case c_weather cur of None \<Rightarrow> [] | Some ws \<Rightarrow> ws)\<rparr>,
                  s_hourly = hourly,
                  s_daily = daily,
                  s_timezone_offset = 0\<rparr>)"

section \<open>The daily aggregation as the specification words it\<close>

text \<open>
  The day number, timestamp and representative weather of a forecast entry, and the entries a
  payload must consist of for the normalizer to return: a timestamp within the range of
  \<^verbatim>\<open>datetime\<close>, and a \<^verbatim>\<open>"weather"\<close> list that is absent or non-empty.
  \<open>spec_daily\<close> is the aggregation in the specification's words: the distinct UTC days in ascending
  order, per day the minimum of the non-null minimum temperatures, the maximum of the non-null
  maximum temperatures, and the entry at index \<open>count div 2\<close> of the day's group.
\<close>

definition item_day :: "item \<Rightarrow> int" where
  "item_day it = (case i_dt it of None \<Rightarrow> 0 | Some dt \<Rightarrow> dt div 86400)"

definition item_ts :: "item \<Rightarrow> int" where
  "item_ts it = (case i_dt it of None \<Rightarrow> 0 | Some dt \<Rightarrow> dt)"

definition item_wx :: "item \<Rightarrow> wx" where
  "item_wx it = (case i_weather it of Some (w # _) \<Rightarrow> w | _ \<Rightarrow> empty_wx)"

definition well_formed_item :: "item \<Rightarrow> bool" where
  "well_formed_item it \<longleftrightarrow>
     (case i_dt it of None \<Rightarrow> False | Some dt \<Rightarrow> - 62135596800 \<le> dt \<and> dt \<le> 253402300799) \<and>
     i_weather it \<noteq> Some []"

definition spec_days :: "item list \<Rightarrow> int list" where
  "spec_days items = sort (remdups (map item_day items))"

definition spec_group :: "int \<Rightarrow> item list \<Rightarrow> item list" where
  "spec_group d items = filter (\<lambda>it. item_day it = d) items"

definition spec_min :: "item list \<Rightarrow> rat option" where
  "spec_min grp =
     (let vs = List.map_filter i_temp_min grp in if vs = [] then None else Some (Min (set vs)))"

definition spec_max :: "item list \<Rightarrow> rat option" where
  "spec_max grp =
     (let vs = List.map_filter i_temp_max grp in if vs = [] then None else Some (Max (set vs)))"

definition spec_day_entry :: "item list \<Rightarrow> day" where
  "spec_day_entry grp =
     (let mid = grp ! (length grp div 2)
      in \<lparr>d_dt = item_ts mid, d_min = spec_min grp, d_max = spec_max grp,
          d_weather = [item_wx mid]\<rparr>)"

definition spec_daily :: "item list \<Rightarrow> day list" where
  "spec_daily items = map (\<lambda>d. spec_day_entry (spec_group d items)) (spec_days items)"

text \<open>The dictionary entry the loop holds for the entries of one day, and the loop invariant.\<close>

definition group_of :: "item list \<Rightarrow> group" where
  "group_of grp = \<lparr>temps = map (\<lambda>it. (i_temp_min it, i_temp_max it)) grp,
     weathers = map item_wx grp, dts = map item_ts grp\<rparr>"

definition map_inv :: "item list \<Rightarrow> (int \<times> group) list \<Rightarrow> bool" where
  "map_inv pre m \<longleftrightarrow>
     distinct (map fst m) \<and> fst ` set m = item_day ` set pre \<and>
     (\<forall>(k, g) \<in> set m. g = group_of (spec_group k pre))"


section \<open>A concrete fallback payload\<close>

text \<open>
  Three-hour entries starting on 2023-11-15 at 06:00 UTC (day number 19676): the first 30 of them
  span four calendar days, with 6, 8, 8 and 8 entries.
\<close>

definition example_wx :: wx where
  "example_wx = \<lparr>wx_main = Some (u ''Clouds''), wx_description = Some (u ''few clouds'')\<rparr>"

definition example_item :: "nat \<Rightarrow> item" where
  "example_item k =
     \<lparr>i_dt = Some (1700028000 + 10800 * int k),
      i_temp = Some (of_nat k / 2),
      i_temp_min = Some (of_nat k / 2 - 1),
      i_temp_max = Some (of_nat k / 2 + 1),
      i_weather = Some [example_wx]\<rparr>"

definition example_forecast :: "nat \<Rightarrow> item list" where
  "example_forecast n = map example_item [0..<n]"

definition example_cur :: cur_payload where
  "example_cur = \<lparr>c_dt = Some 1700028000, c_temp = Some 7, c_feels_like = Some 5,
     c_humidity = Some 80, c_wind_speed = Some 3, c_weather = Some [example_wx]\<rparr>"


section \<open>The HTTP capability\<close>

text \<open>
  \<^verbatim>\<open>requests.get\<close> is the only effect of the fetchers. An endpoint answers with a status
  code and a body that is JSON of the endpoint's shape (\<open>Response\<close>), with a status code and a
  body that is not JSON (\<open>NotJson\<close>), or the call itself raises (\<open>Raises\<close>). The world holds
  what each endpoint answers, the clock, and the log of the requests made so far, oldest first.
  An answer is a function of the requests made before it, so an endpoint may fail once and
  answer the next time.
\<close>

datatype request =
    GeoReq ustr
  | OneCallReq rat rat ustr
  | WeatherReq rat rat ustr
  | ForecastReq rat rat ustr
  | WttrReq ustr

datatype 'a reply = Response int 'a | NotJson int | Raises error

text \<open>One candidate of the geocoding response; \<open>None\<close> is a missing key.\<close>

record geo_match =
  g_lat :: "rat option"
  g_lon :: "rat option"
  g_name :: "ustr option"
  g_country :: "ustr option"

record world =
  geo_reply :: "request list \<Rightarrow> ustr \<Rightarrow> geo_match list reply"
  onecall_reply :: "request list \<Rightarrow> rat \<Rightarrow> rat \<Rightarrow> ustr \<Rightarrow> snapshot reply"
  weather_reply :: "request list \<Rightarrow> rat \<Rightarrow> rat \<Rightarrow> ustr \<Rightarrow> cur_payload reply"
  forecast_reply :: "request list \<Rightarrow> rat \<Rightarrow> rat \<Rightarrow> ustr \<Rightarrow> item list reply"
  clock :: int
  requests_log :: "request list"

definition log_request :: "request \<Rightarrow> world \<Rightarrow> world" where
  "log_request rq w = w\<lparr>requests_log := requests_log w @ [rq]\<rparr>"

text \<open>\<^verbatim>\<open>r.raise_for_status()\<close> raises \<open>HTTPError\<close> for the statuses 400 .. 599.\<close>

definition raise_for_status :: "int \<Rightarrow> error option" where
  "raise_for_status st =
     (if 400 \<le> st \<and> st < 600 then Some (HTTPError (u ''HTTP status error'')) else None)"

text \<open>
  \<^verbatim>\<open>r.json()\<close> on a body that is not JSON raises \<^verbatim>\<open>requests.exceptions.JSONDecodeError\<close>,
  a \<open>RequestException\<close> (requests 2.27 and later).
\<close>

definition json_decode_error :: error where
  "json_decode_error = RequestError (u ''Expecting value: line 1 column 1 (char 0)'')"

text \<open>\<^verbatim>\<open>r = requests.get(url); r.raise_for_status(); r.json()\<close>\<close>

definition get_json :: "'a reply \<Rightarrow> error + 'a" where
  "get_json rp =
     (case rp of
        Raises e \<Rightarrow> Inl e
      | Response st body \<Rightarrow>
         (case raise_for_status st of Some e \<Rightarrow> Inl e | None \<Rightarrow> Inr body)
      | NotJson st \<Rightarrow>
         (case raise_for_status st of Some e \<Rightarrow> Inl e | None \<Rightarrow> Inl json_decode_error))"

section \<open>The fetchers\<close>

definition geocode_owm :: "world \<Rightarrow> ustr \<Rightarrow> (error + rat \<times> rat \<times> ustr \<times> ustr) \<times> world" where
  "geocode_owm w city =
     (let w1 = log_request (GeoReq city) w
      in case get_json (geo_reply w (requests_log w) city) of
           Inl e \<Rightarrow> (Inl e, w1)
         | Inr j \<Rightarrow>
            (case j of
               [] \<Rightarrow> (Inl (ValueError (u ''City not found'')), w1)
             | it # _ \<Rightarrow>
                (case g_lat it of
                   None \<Rightarrow> (Inl (KeyError (u ''lat'')), w1)
                 | Some lat \<Rightarrow>
                    (case g_lon it of
                       None \<Rightarrow> (Inl (KeyError (u ''lon'')), w1)
                     | Some lon \<Rightarrow>
                        (Inr (lat, lon,
                              (case g_name it of None \<Rightarrow> city | Some n \<Rightarrow> n),
                              (case g_country it of None \<Rightarrow> [] | Some c \<Rightarrow> c)), w1)))))"

definition fetch_weather_and_forecast :: "world \<Rightarrow> rat \<Rightarrow> rat \<Rightarrow> ustr \<Rightarrow> (error + snapshot) \<times> world" where
  "fetch_weather_and_forecast w lat lon units =
     (let w1 = log_request (WeatherReq lat lon units) w
      in case get_json (weather_reply w (requests_log w) lat lon units) of
           Inl e \<Rightarrow> (Inl e, w1)
         | Inr cur \<Rightarrow>
            (let w2 = log_request (ForecastReq lat lon units) w1
             in case get_json (forecast_reply w (requests_log w1) lat lon units) of
                  Inl e \<Rightarrow> (Inl e, w2)
                | Inr fr_list \<Rightarrow> (normalize_fallback (clock w) cur fr_list, w2)))"

text \<open>\<^verbatim>\<open>except requests.RequestException\<close> catches \<open>HTTPError\<close> and its siblings only.\<close>

definition is_request_exception :: "error \<Rightarrow> bool" where
  "is_request_exception e = (case e of HTTPError _ \<Rightarrow> True | RequestError _ \<Rightarrow> True | _ \<Rightarrow> False)"

text \<open>
  The body of the \<^verbatim>\<open>try\<close> statement of \<^verbatim>\<open>fetch_onecall\<close>: the request to the primary
  endpoint, and under it both \<^verbatim>\<open>return r.json()\<close> and the fallback call of the
  \<^verbatim>\<open>else\<close> branch. The result is what the body returned or the exception that left it.
\<close>

definition onecall_try :: "world \<Rightarrow> rat \<Rightarrow> rat \<Rightarrow> ustr \<Rightarrow> (error + snapshot) \<times> world" where
  "onecall_try w lat lon units =
     (let w1 = log_request (OneCallReq lat lon units) w
      in case onecall_reply w (requests_log w) lat lon units of
           Raises e \<Rightarrow> (Inl e, w1)
         | Response st body \<Rightarrow>
             (if st = 200 then (Inr body, w1)
              else fetch_weather_and_forecast w1 lat lon units)
         | NotJson st \<Rightarrow>
             (if st = 200 then (Inl json_decode_error, w1)
              else fetch_weather_and_forecast w1 lat lon units))"

text \<open>
  \<^verbatim>\<open>fetch_onecall\<close>: the handler \<^verbatim>\<open>except requests.RequestException\<close> calls the fallback
  fetch, whichever statement of the body raised; any other exception leaves the function.
  An exception of the handler's own call is not caught.
\<close>

definition fetch_onecall :: "world \<Rightarrow> rat \<Rightarrow> rat \<Rightarrow> ustr \<Rightarrow> (error + snapshot) \<times> world" where
  "fetch_onecall w lat lon units =
     (case onecall_try w lat lon units of
        (Inr data, w') \<Rightarrow> (Inr data, w')
      | (Inl e, w') \<Rightarrow>
          (if is_request_exception e then fetch_weather_and_forecast w' lat lon units
           else (Inl e, w')))"

section \<open>The try block of main\<close>

text \<open>
  \<^verbatim>\<open>str(e)\<close>: the message the exception carries; for a \<open>KeyError\<close> the key in quotes.
\<close>

fun error_text :: "error \<Rightarrow> ustr" where
  "error_text (ValueError m) = m"
| "error_text (TypeError m) = m"
| "error_text (IndexError m) = m"
| "error_text (KeyError m) = u [CHR 0x27] @ m @ u [CHR 0x27]"
| "error_text (ZeroDivisionError m) = m"
| "error_text (OverflowError m) = m"
| "error_text (HTTPError m) = m"
| "error_text (RequestError m) = m"

text \<open>
  \<^verbatim>\<open>except requests.HTTPError as e: print("Network/API error:", e)\<close> and
  \<^verbatim>\<open>except Exception as e: print("Error:", e)\<close>
\<close>

definition error_line :: "error \<Rightarrow> ustr" where
  "error_line e =
     (case e of
        HTTPError m \<Rightarrow> u ''Network/API error: '' @ m
      | _ \<Rightarrow> u ''Error: '' @ error_text e)"

text \<open>
  The \<^verbatim>\<open>try\<close> block of \<^verbatim>\<open>main\<close>. What was asked for is either a city name (the
  rich variant knows only this case) or the coordinate pair of \<^verbatim>\<open>--coords\<close>. The renderer
  of the canonical snapshot and the whole keyless path (fetch and render of the third provider)
  are parameters: each returns the lines it printed and the exception that ended it, if any.
  The result is everything printed and the world afterwards.
\<close>

datatype target = City ustr | Coords rat rat

definition finish :: "ustr list \<times> error option \<Rightarrow> ustr list" where
  "finish r = (case r of (out, None) \<Rightarrow> out | (out, Some e) \<Rightarrow> out @ [error_line e])"

definition main_try ::
  "(snapshot \<Rightarrow> ustr \<Rightarrow> ustr \<Rightarrow> ustr list \<times> error option) \<Rightarrow>
   (world \<Rightarrow> target \<Rightarrow> ustr \<Rightarrow> ustr \<Rightarrow> (ustr list \<times> error option) \<times> world) \<Rightarrow>
   bool \<Rightarrow> world \<Rightarrow> target \<Rightarrow> ustr \<Rightarrow> ustr \<Rightarrow> ustr list \<times> world" where
  "main_try render keyless use_owm w tgt place_label units =
     (case tgt of
        City city \<Rightarrow>
          (if use_owm \<and> city \<noteq> [] then
             (case geocode_owm w city of
                (Inl e, w1) \<Rightarrow> ([error_line e], w1)
              | (Inr (lat, lon, name, country), w1) \<Rightarrow>
                 (let place_label' = (if country \<noteq> [] then name @ u '', '' @ country else name)
                  in case fetch_onecall w1 lat lon units of
                       (Inl e, w2) \<Rightarrow> ([error_line e], w2)
                     | (Inr data, w2) \<Rightarrow> (finish (render data place_label' units), w2)))
           else (case keyless w tgt place_label units of (r, w2) \<Rightarrow> (finish r, w2)))
      | Coords lat lon \<Rightarrow>
          (if use_owm then
             (case fetch_onecall w lat lon units of
                (Inl e, w2) \<Rightarrow> ([error_line e], w2)
              | (Inr data, w2) \<Rightarrow> (finish (render data place_label units), w2))
           else (case keyless w tgt place_label units of (r, w2) \<Rightarrow> (finish r, w2))))"

section \<open>The current-conditions texts of the two renderers\<close>

text \<open>\<^verbatim>\<open>cur.get(key, default)\<close>: the default replaces a missing key only.\<close>

definition dict_get :: "'a jfield \<Rightarrow> 'a \<Rightarrow> 'a option" where
  "dict_get f dflt = (case f of Absent \<Rightarrow> Some dflt | Null \<Rightarrow> None | Val v \<Rightarrow> Some v)"

text \<open>
  \<^verbatim>\<open>round(x)\<close> with one argument: the nearest integer, ties to the even one; on
  \<^verbatim>\<open>None\<close> a \<open>TypeError\<close>.
\<close>

definition round_half_even :: "rat \<Rightarrow> int" where
  "round_half_even x =
     (let f = \<lfloor>x\<rfloor>; d = x - of_int f
      in if d < 1 / 2 then f else if 1 / 2 < d then f + 1 else if even f then f else f + 1)"

definition py_round :: "rat option \<Rightarrow> error + int" where
  "py_round x =
     (case x of
        None \<Rightarrow> Inl (TypeError (u ''type NoneType doesn't define __round__ method''))
      | Some v \<Rightarrow> Inr (round_half_even v))"

text \<open>\<^verbatim>\<open>str\<close> of an integer.\<close>

fun digits :: "nat \<Rightarrow> ustr" where
  "digits n = (if n < 10 then [48 + n] else digits (n div 10) @ [48 + n mod 10])"

declare digits.simps [simp del]

definition str_int :: "int \<Rightarrow> ustr" where
  "str_int i = (if i < 0 then 45 # digits (nat (- i)) else digits (nat i))"

text \<open>The degree sign is U+00B0, the dash placeholder U+2014.\<close>

definition unit_sym :: "ustr \<Rightarrow> ustr" where
  "unit_sym units = (if units = u ''metric'' then [0xB0] @ u ''C'' else [0xB0] @ u ''F'')"

definition speed_sym :: "ustr \<Rightarrow> ustr" where
  "speed_sym units = (if units = u ''metric'' then u ''m/s'' else u ''mph'')"

text \<open>\<^verbatim>\<open>f"{cur.get('humidity','-')}"\<close>: the value is formatted with \<^verbatim>\<open>str\<close>.\<close>

definition humidity_text :: "int jfield \<Rightarrow> ustr" where
  "humidity_text h = (case h of Absent \<Rightarrow> [0x2014] | Null \<Rightarrow> u ''None'' | Val v \<Rightarrow> str_int v)"

text \<open>
  Plain variant, \<^verbatim>\<open>render_owm\<close>:
  \<^verbatim>\<open>print(f"Temp: {round(cur.get('temp',0))}{unit_sym}  Feels: {round(cur.get('feels_like',0))}{unit_sym}")\<close>
  and the humidity and wind line after it.
\<close>

definition temp_line :: "current \<Rightarrow> ustr \<Rightarrow> error + ustr" where
  "temp_line cur units =
     (case py_round (dict_get (cur_temp cur) 0) of
        Inl e \<Rightarrow> Inl e
      | Inr t \<Rightarrow>
         (case py_round (dict_get (cur_feels_like cur) 0) of
            Inl e \<Rightarrow> Inl e
          | Inr f \<Rightarrow>
             Inr (u ''Temp: '' @ str_int t @ unit_sym units @
                  u ''  Feels: '' @ str_int f @ unit_sym units)))"

definition humidity_wind_line :: "current \<Rightarrow> ustr \<Rightarrow> error + ustr" where
  "humidity_wind_line cur units =
     (case py_round (dict_get (cur_wind_speed cur) 0) of
        Inl e \<Rightarrow> Inl e
      | Inr ws \<Rightarrow>
         Inr (u ''Humidity: '' @ humidity_text (cur_humidity cur) @ u ''%  Wind: '' @
              str_int ws @ u '' '' @ speed_sym units))"

section \<open>The renderers, up to the current conditions\<close>

text \<open>
  Two library functions are parameters of the renderers: \<^verbatim>\<open>str.capitalize\<close>, and
  \<^verbatim>\<open>strftime("%Y-%m-%d %H:%M")\<close> of the UTC date and time of a timestamp that
  \<^verbatim>\<open>datetime\<close> can represent.
\<close>

record pylib =
  capitalize :: "ustr \<Rightarrow> ustr"
  strftime_minute :: "int \<Rightarrow> ustr"

text \<open>\<^verbatim>\<open>w = cur.get("weather",[{}])[0]\<close>\<close>

definition head_weather :: "wx list jfield \<Rightarrow> error + wx" where
  "head_weather f =
     (case f of
        Absent \<Rightarrow> Inr empty_wx
      | Null \<Rightarrow> Inl (TypeError (u [CHR 0x27] @ u ''NoneType'' @ u [CHR 0x27] @ u '' object is not subscriptable''))
      | Val [] \<Rightarrow> Inl (IndexError (u ''list index out of range''))
      | Val (w # _) \<Rightarrow> Inr w)"

text \<open>The pictographs of the plain and of the rich variant; U+FE0F is the variation selector.\<close>

definition ICON_spark :: "(ustr \<times> ustr) list" where
  "ICON_spark =
     [(u ''Thunderstorm'', [0x26C8, 0xFE0F]), (u ''Drizzle'', [0x1F326, 0xFE0F]),
      (u ''Rain'', [0x1F327, 0xFE0F]), (u ''Snow'', [0x2744, 0xFE0F]),
      (u ''Clear'', [0x2600, 0xFE0F]), (u ''Clouds'', [0x2601, 0xFE0F]),
      (u ''Mist'', [0x1F32B, 0xFE0F]), (u ''Smoke'', [0x1F32B, 0xFE0F]),
      (u ''Haze'', [0x1F32B, 0xFE0F]), (u ''Fog'', [0x1F32B, 0xFE0F]),
      (u ''Dust'', [0x1F32B, 0xFE0F]), (u ''Ash'', [0x1F30B]),
      (u ''Squall'', [0x1F32C, 0xFE0F]), (u ''Tornado'', [0x1F32A, 0xFE0F])]"

definition ICON_rich :: "(ustr \<times> ustr) list" where
  "ICON_rich =
     [(u ''Thunderstorm'', [0x26C8, 0xFE0F]), (u ''Drizzle'', [0x1F326, 0xFE0F]),
      (u ''Rain'', [0x1F327, 0xFE0F]), (u ''Snow'', [0x2744, 0xFE0F]),
      (u ''Clear'', [0x2600, 0xFE0F]), (u ''Clouds'', [0x2601, 0xFE0F]),
      (u ''Mist'', [0x1F32B, 0xFE0F]), (u ''Haze'', [0x1F32B, 0xFE0F])]"

text \<open>
  \<^verbatim>\<open>desc = w.get("description",""); main = w.get("main",""); icon = ICON.get(main,"")\<close>
  and the text \<^verbatim>\<open>f"{icon} {cap(desc)}"\<close>.
\<close>

definition condition_text :: "pylib \<Rightarrow> (ustr \<times> ustr) list \<Rightarrow> wx \<Rightarrow> ustr" where
  "condition_text lib icons w =
     (let desc = (case wx_description w of None \<Rightarrow> [] | Some d \<Rightarrow> d);
          main = (case wx_main w of None \<Rightarrow> [] | Some m \<Rightarrow> m);
          icon = (case map_of icons main of None \<Rightarrow> [] | Some i \<Rightarrow> i)
      in icon @ u '' '' @ capitalize lib desc)"

text \<open>
  \<^verbatim>\<open>human_time\<close> of the plain variant:
  \<^verbatim>\<open>datetime.utcfromtimestamp(ts + tz_offset).strftime("%Y-%m-%d %H:%M")\<close>. The argument is
  \<^verbatim>\<open>cur.get('dt', int(time.time()))\<close>, which is \<^verbatim>\<open>None\<close> for a key holding \<^verbatim>\<open>None\<close>.
\<close>

definition human_time_spark :: "pylib \<Rightarrow> int option \<Rightarrow> int \<Rightarrow> error + ustr" where
  "human_time_spark lib ts tz_offset =
     (case ts of
        None \<Rightarrow>
          Inl (TypeError (u ''unsupported operand type(s) for +: '' @ u [CHR 0x27] @ u ''NoneType'' @
                 u [CHR 0x27] @ u '' and '' @ u [CHR 0x27] @ u ''int'' @ u [CHR 0x27]))
      | Some t \<Rightarrow>
          (case utc_date (t + tz_offset) of
             Inl e \<Rightarrow> Inl e
           | Inr _ \<Rightarrow> Inr (strftime_minute lib (t + tz_offset))))"

text \<open>
  \<^verbatim>\<open>human_time\<close> of the rich variant:
  \<^verbatim>\<open>datetime.fromtimestamp((ts or int(time.time())) + (tz_offset or 0), tz=timezone.utc)\<close>,
  formatted the same way; \<^verbatim>\<open>None\<close> and 0 are replaced by the current time.
\<close>

definition human_time_rich :: "pylib \<Rightarrow> int \<Rightarrow> int option \<Rightarrow> int \<Rightarrow> error + ustr" where
  "human_time_rich lib now ts tz_offset =
     (let t = (case ts of None \<Rightarrow> now | Some v \<Rightarrow> if v = 0 then now else v) + tz_offset
      in case utc_date t of
           Inl e \<Rightarrow> Inl e
         | Inr _ \<Rightarrow> Inr (strftime_minute lib t))"

text \<open>\<^verbatim>\<open>print_banner\<close>; the dash is U+2014.\<close>

definition print_banner :: "ustr list" where
  "print_banner =
     [replicate 48 0x3D, u '' Quick Weather '' @ [0x2014] @ u '' CLI with hourly sparkline'',
      replicate 48 0x3D]"

text \<open>
  \<^verbatim>\<open>render_owm\<close> from its first statement through the humidity and wind line: the lines
  printed, and the exception that stopped the renderer. \<open>now\<close> is \<^verbatim>\<open>int(time.time())\<close>.
\<close>

definition render_owm_head ::
  "pylib \<Rightarrow> int \<Rightarrow> snapshot \<Rightarrow> ustr \<Rightarrow> ustr \<Rightarrow> ustr list \<times> error option" where
  "render_owm_head lib now data place_label units =
     (let cur = s_current data; tz_offset = s_timezone_offset data
      in case head_weather (cur_weather cur) of
           Inl e \<Rightarrow> ([], Some e)
         | Inr w \<Rightarrow>
            (let out1 = print_banner @ [u ''Location: '' @ place_label]
             in case human_time_spark lib (dict_get (cur_dt cur) now) tz_offset of
                  Inl e \<Rightarrow> (out1, Some e)
                | Inr tm \<Rightarrow>
                   (let out2 = out1 @ [u ''Time: '' @ tm, [], condition_text lib ICON_spark w]
                    in case temp_line cur units of
                         Inl e \<Rightarrow> (out2, Some e)
                       | Inr l1 \<Rightarrow>
                          (case humidity_wind_line cur units of
                             Inl e \<Rightarrow> (out2 @ [l1], Some e)
                           | Inr l2 \<Rightarrow> (out2 @ [l1, l2], None)))))"

text \<open>
  Rich variant, \<^verbatim>\<open>render_rich_owm\<close>: the cells of the rows \<^verbatim>\<open>Temp\<close>, \<^verbatim>\<open>Humidity\<close>
  and \<^verbatim>\<open>Wind\<close>, added in this order.
\<close>

definition rich_temp_cell :: "current \<Rightarrow> ustr \<Rightarrow> error + ustr" where
  "rich_temp_cell cur units =
     (case py_round (dict_get (cur_temp cur) 0) of
        Inl e \<Rightarrow> Inl e
      | Inr t \<Rightarrow>
         (case py_round (dict_get (cur_feels_like cur) 0) of
            Inl e \<Rightarrow> Inl e
          | Inr f \<Rightarrow>
             Inr (str_int t @ unit_sym units @ u '' (feels '' @ str_int f @ unit_sym units @ u '')'')))"

definition rich_humidity_cell :: "current \<Rightarrow> ustr" where
  "rich_humidity_cell cur = humidity_text (cur_humidity cur) @ u ''%''"

definition rich_wind_cell :: "current \<Rightarrow> ustr \<Rightarrow> error + ustr" where
  "rich_wind_cell cur units =
     (case py_round (dict_get (cur_wind_speed cur) 0) of
        Inl e \<Rightarrow> Inl e
      | Inr ws \<Rightarrow> Inr (str_int ws @ u '' '' @ speed_sym units))"

text \<open>
  \<^verbatim>\<open>render_rich_owm\<close> from its first statement through the row \<^verbatim>\<open>Wind\<close>: the text of
  the panel printed at the top, the rows added to the left table (label and cell; the table is
  printed only at the end of the renderer), and the exception that stopped the renderer.
\<close>

definition render_rich_owm_head ::
  "pylib \<Rightarrow> int \<Rightarrow> snapshot \<Rightarrow> ustr \<Rightarrow> ustr \<Rightarrow> ustr list \<times> (ustr \<times> ustr) list \<times> error option" where
  "render_rich_owm_head lib now data place_label units =
     (let cur = s_current data; tz_offset = s_timezone_offset data
      in case head_weather (cur_weather cur) of
           Inl e \<Rightarrow> ([], [], Some e)
         | Inr w \<Rightarrow>
            (case human_time_rich lib now (dict_get (cur_dt cur) now) tz_offset of
               Inl e \<Rightarrow> ([], [], Some e)
             | Inr tm \<Rightarrow>
                (let panel = [place_label @ u ''  '' @ tm];
                     rows1 = [(u ''Condition'', condition_text lib ICON_rich w)]
                 in case rich_temp_cell cur units of
                      Inl e \<Rightarrow> (panel, rows1, Some e)
                    | Inr c1 \<Rightarrow>
                       (let rows3 = rows1 @ [(u ''Temp'', c1), (u ''Humidity'', rich_humidity_cell cur)]
                        in case rich_wind_cell cur units of
                             Inl e \<Rightarrow> (panel, rows3, Some e)
                           | Inr c3 \<Rightarrow> (panel, rows3 @ [(u ''Wind'', c3)], None)))))"

section \<open>Python numbers: integers and binary64 floats\<close>

text \<open>
  The samples of \<^verbatim>\<open>sparkline\<close> are JSON numbers: Python integers (unbounded) and floats
  (IEEE 754 binary64). A float is its exact rational value, one of the infinities, or NaN;
  the sign of zero is not kept (no operation below observes it). \<open>fl\<close> rounds a rational to
  the nearest binary64 value, ties to the even significand: 53 significant bits, spacing
  \<open>2 ^ (e - 52)\<close> for \<open>2 ^ e \<le> \<bar>x\<bar> < 2 ^ (e + 1)\<close>, the subnormal spacing \<open>2 ^ - 1074\<close> below
  \<open>2 ^ - 1022\<close>, and an infinity when the rounded magnitude reaches \<open>2 ^ 1024\<close>.
\<close>

datatype pyfloat = Fin rat | PInf | NInf | NaN

datatype number = PyInt int | PyFloat pyfloat

text \<open>\<open>ilog2 x\<close> is the exponent \<open>e\<close> with \<open>2 ^ e \<le> x < 2 ^ (e + 1)\<close>, for positive \<open>x\<close>.\<close>

definition ilog2 :: "rat \<Rightarrow> int" where
  "ilog2 x =
     (case quotient_of x of
        (p, q) \<Rightarrow> (let k = bitlen p - bitlen q in if 2 powi k \<le> x then k else k - 1))"

definition expo :: "rat \<Rightarrow> int" where
  "expo x = max (ilog2 x) (- 1022)"

definition spacing :: "rat \<Rightarrow> rat" where
  "spacing x = 2 powi (expo x - 52)"

definition round_pos :: "rat \<Rightarrow> rat" where
  "round_pos x = of_int (round_half_even (x / spacing x)) * spacing x"

definition fl :: "rat \<Rightarrow> pyfloat" where
  "fl x =
     (if x = 0 then Fin 0
      else if 0 < x then (if 2 powi 1024 \<le> round_pos x then PInf else Fin (round_pos x))
      else (if 2 powi 1024 \<le> round_pos (- x) then NInf else Fin (- round_pos (- x))))"

text \<open>The rationals that are binary64 values.\<close>

definition is_double :: "rat \<Rightarrow> bool" where
  "is_double r \<longleftrightarrow> fl r = Fin r"

text \<open>The multiples of the smallest subnormal \<open>2 ^ - 1074\<close>; every binary64 value is one.\<close>

definition on_grid :: "rat \<Rightarrow> bool" where
  "on_grid r \<longleftrightarrow> of_int \<lfloor>r * 2 powi 1074\<rfloor> = r * 2 powi 1074"

text \<open>The IEEE operations on floats, each correctly rounded.\<close>

fun fsub :: "pyfloat \<Rightarrow> pyfloat \<Rightarrow> pyfloat" where
  "fsub (Fin a) (Fin b) = fl (a - b)"
| "fsub NaN _ = NaN"
| "fsub _ NaN = NaN"
| "fsub PInf PInf = NaN"
| "fsub NInf NInf = NaN"
| "fsub PInf _ = PInf"
| "fsub NInf _ = NInf"
| "fsub _ PInf = NInf"
| "fsub _ NInf = PInf"

fun fadd :: "pyfloat \<Rightarrow> pyfloat \<Rightarrow> pyfloat" where
  "fadd (Fin a) (Fin b) = fl (a + b)"
| "fadd NaN _ = NaN"
| "fadd _ NaN = NaN"
| "fadd PInf NInf = NaN"
| "fadd NInf PInf = NaN"
| "fadd PInf _ = PInf"
| "fadd NInf _ = NInf"
| "fadd _ PInf = PInf"
| "fadd _ NInf = NInf"

fun fmul :: "pyfloat \<Rightarrow> pyfloat \<Rightarrow> pyfloat" where
  "fmul (Fin a) (Fin b) = fl (a * b)"
| "fmul NaN _ = NaN"
| "fmul _ NaN = NaN"
| "fmul (Fin a) PInf = (if a = 0 then NaN else if 0 < a then PInf else NInf)"
| "fmul (Fin a) NInf = (if a = 0 then NaN else if 0 < a then NInf else PInf)"
| "fmul PInf (Fin b) = (if b = 0 then NaN else if 0 < b then PInf else NInf)"
| "fmul NInf (Fin b) = (if b = 0 then NaN else if 0 < b then NInf else PInf)"
| "fmul PInf PInf = PInf"
| "fmul PInf NInf = NInf"
| "fmul NInf PInf = NInf"
| "fmul NInf NInf = PInf"

text \<open>Division by a divisor that is not zero (Python raises on a zero divisor before dividing).\<close>

fun fdiv :: "pyfloat \<Rightarrow> pyfloat \<Rightarrow> pyfloat" where
  "fdiv (Fin a) (Fin b) = fl (a / b)"
| "fdiv NaN _ = NaN"
| "fdiv _ NaN = NaN"
| "fdiv (Fin a) PInf = Fin 0"
| "fdiv (Fin a) NInf = Fin 0"
| "fdiv PInf (Fin b) = (if 0 < b then PInf else NInf)"
| "fdiv NInf (Fin b) = (if 0 < b then NInf else PInf)"
| "fdiv PInf PInf = NaN"
| "fdiv PInf NInf = NaN"
| "fdiv NInf PInf = NaN"
| "fdiv NInf NInf = NaN"

text \<open>Sequencing of computations that may raise.\<close>

definition bindE :: "error + 'a \<Rightarrow> ('a \<Rightarrow> error + 'b) \<Rightarrow> error + 'b" where
  "bindE m f = (case m of Inl e \<Rightarrow> Inl e | Inr x \<Rightarrow> f x)"

text \<open>Conversion of an operand to float in mixed arithmetic.\<close>

definition to_float :: "number \<Rightarrow> error + pyfloat" where
  "to_float x =
     (case x of
        PyFloat f \<Rightarrow> Inr f
      | PyInt i \<Rightarrow>
         (case fl (of_int i) of
            Fin r \<Rightarrow> Inr (Fin r)
          | _ \<Rightarrow> Inl (OverflowError (u ''int too large to convert to float''))))"

text \<open>
  \<^verbatim>\<open>a - b\<close>, \<^verbatim>\<open>a + b\<close>, \<^verbatim>\<open>a * b\<close>, \<^verbatim>\<open>a / b\<close> (true division) and \<^verbatim>\<open>int(a)\<close>.
  Two integers are subtracted, added and multiplied exactly; as soon as one operand is a float
  the other is converted and the float operation rounds.
\<close>

definition py_sub :: "number \<Rightarrow> number \<Rightarrow> error + number" where
  "py_sub a b =
     (case (a, b) of
        (PyInt i, PyInt j) \<Rightarrow> Inr (PyInt (i - j))
      | _ \<Rightarrow> bindE (to_float a) (\<lambda>x. bindE (to_float b) (\<lambda>y. Inr (PyFloat (fsub x y)))))"

definition py_add :: "number \<Rightarrow> number \<Rightarrow> error + number" where
  "py_add a b =
     (case (a, b) of
        (PyInt i, PyInt j) \<Rightarrow> Inr (PyInt (i + j))
      | _ \<Rightarrow> bindE (to_float a) (\<lambda>x. bindE (to_float b) (\<lambda>y. Inr (PyFloat (fadd x y)))))"

definition py_mul :: "number \<Rightarrow> number \<Rightarrow> error + number" where
  "py_mul a b =
     (case (a, b) of
        (PyInt i, PyInt j) \<Rightarrow> Inr (PyInt (i * j))
      | _ \<Rightarrow> bindE (to_float a) (\<lambda>x. bindE (to_float b) (\<lambda>y. Inr (PyFloat (fmul x y)))))"

definition py_truediv :: "number \<Rightarrow> number \<Rightarrow> error + number" where
  "py_truediv a b =
     (case (a, b) of
        (PyInt i, PyInt j) \<Rightarrow>
          (if j = 0 then Inl (ZeroDivisionError (u ''division by zero''))
           else (case fl (of_int i / of_int j) of
                   Fin r \<Rightarrow> Inr (PyFloat (Fin r))
                 | _ \<Rightarrow> Inl (OverflowError (u ''integer division result too large for a float''))))
      | _ \<Rightarrow>
          bindE (to_float a) (\<lambda>x. bindE (to_float b) (\<lambda>y.
            if y = Fin 0 then Inl (ZeroDivisionError (u ''float division by zero''))
            else Inr (PyFloat (fdiv x y)))))"

definition py_int :: "number \<Rightarrow> error + int" where
  "py_int a =
     (case a of
        PyInt i \<Rightarrow> Inr i
      | PyFloat (Fin r) \<Rightarrow> Inr (if 0 \<le> r then \<lfloor>r\<rfloor> else \<lceil>r\<rceil>)
      | PyFloat NaN \<Rightarrow> Inl (ValueError (u ''cannot convert float NaN to integer''))
      | PyFloat _ \<Rightarrow> Inl (OverflowError (u ''cannot convert float infinity to integer'')))"

text \<open>
  Comparison of numbers is by exact value, also between an integer and a float; every
  comparison with NaN is false.
\<close>

definition exact :: "number \<Rightarrow> pyfloat" where
  "exact a = (case a of PyInt i \<Rightarrow> Fin (of_int i) | PyFloat f \<Rightarrow> f)"

fun float_lt :: "pyfloat \<Rightarrow> pyfloat \<Rightarrow> bool" where
  "float_lt (Fin a) (Fin b) = (a < b)"
| "float_lt NInf (Fin b) = True"
| "float_lt NInf PInf = True"
| "float_lt (Fin a) PInf = True"
| "float_lt _ _ = False"

definition py_lt :: "number \<Rightarrow> number \<Rightarrow> bool" where
  "py_lt a b = float_lt (exact a) (exact b)"

definition py_eq :: "number \<Rightarrow> number \<Rightarrow> bool" where
  "py_eq a b = (exact a \<noteq> NaN \<and> exact a = exact b)"

text \<open>\<^verbatim>\<open>min\<close> and \<^verbatim>\<open>max\<close> of a list of numbers: the first extreme element of a scan.\<close>

fun min_numbers :: "number list \<Rightarrow> error + number" where
  "min_numbers [] = Inl (ValueError (u ''min() arg is an empty sequence''))"
| "min_numbers (x # xs) = Inr (fold (\<lambda>y m. if py_lt y m then y else m) xs x)"

fun max_numbers :: "number list \<Rightarrow> error + number" where
  "max_numbers [] = Inl (ValueError (u ''max() arg is an empty sequence''))"
| "max_numbers (x # xs) = Inr (fold (\<lambda>y m. if py_lt m y then y else m) xs x)"

text \<open>\<^verbatim>\<open>xs[i]\<close>: a negative index counts from the end, an index out of range raises.\<close>

definition py_index :: "'a list \<Rightarrow> int \<Rightarrow> error + 'a" where
  "py_index xs i =
     (if 0 \<le> i \<and> i < int (length xs) then Inr (xs ! nat i)
      else if i < 0 \<and> - int (length xs) \<le> i then Inr (xs ! nat (int (length xs) + i))
      else Inl (IndexError (u ''index out of range'')))"

text \<open>
  The exact value of a finite number, and the samples of moderate size: a float that is a
  binary64 value of magnitude at most \<open>2 ^ 1022\<close>, or an integer of magnitude below
  \<open>2 ^ 53\<close> (which converts to float without rounding).
\<close>

definition value_of :: "number \<Rightarrow> rat" where
  "value_of a = (case a of PyInt i \<Rightarrow> of_int i | PyFloat (Fin r) \<Rightarrow> r | PyFloat _ \<Rightarrow> 0)"

definition small_sample :: "number \<Rightarrow> bool" where
  "small_sample a =
     (case a of
        PyInt i \<Rightarrow> \<bar>i\<bar> < 2 ^ 53
      | PyFloat (Fin r) \<Rightarrow> is_double r \<and> \<bar>r\<bar> \<le> 2 powi 1022
      | PyFloat _ \<Rightarrow> False)"

section \<open>The sparkline quantizer\<close>

text \<open>The palette \<^verbatim>\<open>SPARK\<close>: the eight block glyphs U+2581 .. U+2588, lowest first.\<close>

definition SPARK :: ustr where
  "SPARK = [0x2581, 0x2582, 0x2583, 0x2584, 0x2585, 0x2586, 0x2587, 0x2588]"

text \<open>\<^verbatim>\<open>[values[int(i*step)] for i in range(width)]\<close>\<close>

fun pick_loop :: "number list \<Rightarrow> number \<Rightarrow> nat list \<Rightarrow> error + number list" where
  "pick_loop values step [] = Inr []"
| "pick_loop values step (i # rest) =
     bindE (py_mul (PyInt (int i)) step) (\<lambda>p.
     bindE (py_int p) (\<lambda>k.
     bindE (py_index values k) (\<lambda>v.
     bindE (pick_loop values step rest) (\<lambda>vs. Inr (v # vs)))))"

text \<open>
  The fit to the width, for a non-empty list: a stride sample when the list is longer than
  the width, otherwise the list padded on the right with its last element.
\<close>

definition resample :: "number list \<Rightarrow> int \<Rightarrow> error + number list" where
  "resample values width =
     (if int (length values) > width then
        bindE (py_truediv (PyInt (int (length values))) (PyInt width)) (\<lambda>step.
          pick_loop values step [0..<nat width])
      else
        bindE (py_index values (- 1)) (\<lambda>lst.
          Inr (values @ replicate (nat (width - int (length values))) lst)))"

text \<open>\<^verbatim>\<open>int((v - lo) / (hi - lo) * (len(SPARK)-1))\<close>\<close>

definition level :: "number \<Rightarrow> number \<Rightarrow> number \<Rightarrow> error + int" where
  "level v lo hi =
     bindE (py_sub v lo) (\<lambda>d1.
     bindE (py_sub hi lo) (\<lambda>d2.
     bindE (py_truediv d1 d2) (\<lambda>r.
     bindE (py_mul r (PyInt (int (length SPARK) - 1))) (\<lambda>p.
     py_int p))))"

text \<open>
  The loop of the plain variant clamps the index,
  \<^verbatim>\<open>out += SPARK[max(0, min(len(SPARK)-1, idx))]\<close>; the rich variant indexes the palette
  directly, \<^verbatim>\<open>SPARK[int(...)]\<close>.
\<close>

fun glyphs_spark :: "number list \<Rightarrow> number \<Rightarrow> number \<Rightarrow> ustr \<Rightarrow> error + ustr" where
  "glyphs_spark [] lo hi out = Inr out"
| "glyphs_spark (v # rest) lo hi out =
     bindE (level v lo hi) (\<lambda>idx.
     bindE (py_index SPARK (max 0 (min (int (length SPARK) - 1) idx))) (\<lambda>g.
     glyphs_spark rest lo hi (out @ [g])))"

fun glyphs_rich :: "number list \<Rightarrow> number \<Rightarrow> number \<Rightarrow> error + ustr" where
  "glyphs_rich [] lo hi = Inr []"
| "glyphs_rich (v # rest) lo hi =
     bindE (level v lo hi) (\<lambda>idx.
     bindE (py_index SPARK idx) (\<lambda>g.
     bindE (glyphs_rich rest lo hi) (\<lambda>gs. Inr (g # gs))))"

text \<open>\<^verbatim>\<open>"".join(SPARK[0] for _ in vals)\<close>\<close>

fun flat_glyphs :: "number list \<Rightarrow> error + ustr" where
  "flat_glyphs [] = Inr []"
| "flat_glyphs (v # rest) =
     bindE (py_index SPARK 0) (\<lambda>g. bindE (flat_glyphs rest) (\<lambda>gs. Inr (g # gs)))"

text \<open>\<^verbatim>\<open>sparkline\<close> of \<^verbatim>\<open>weather_cli_spark.py\<close>.\<close>

definition sparkline_spark :: "number list \<Rightarrow> int \<Rightarrow> error + ustr" where
  "sparkline_spark values width =
     (if values = [] then Inr []
      else
        bindE (resample values width) (\<lambda>vals.
        bindE (min_numbers vals) (\<lambda>lo.
        bindE (max_numbers vals) (\<lambda>hi.
          if py_eq hi lo then flat_glyphs vals
          else glyphs_spark vals lo hi []))))"

text \<open>\<^verbatim>\<open>sparkline\<close> of \<^verbatim>\<open>weather_cli_rich.py\<close>.\<close>

definition sparkline_rich :: "number list \<Rightarrow> int \<Rightarrow> error + ustr" where
  "sparkline_rich values width =
     (if values = [] then Inr []
      else
        bindE (resample values width) (\<lambda>vals.
        bindE (min_numbers vals) (\<lambda>lo.
        bindE (max_numbers vals) (\<lambda>hi.
          if py_eq hi lo then flat_glyphs vals
          else glyphs_rich vals lo hi))))"

section \<open>The rescaling of the samples\<close>

text \<open>
  The specification's positive affine rescaling \<open>v \<mapsto> a * v + b\<close> of a sample, as Python
  evaluates \<^verbatim>\<open>a*v + b\<close>.
\<close>

definition affine :: "number \<Rightarrow> number \<Rightarrow> number \<Rightarrow> error + number" where
  "affine a b v = bindE (py_mul a v) (\<lambda>p. py_add p b)"

text \<open>The rescaling of an integer sample by integers, which is exact.\<close>

definition rescale_int :: "int \<Rightarrow> int \<Rightarrow> number \<Rightarrow> number" where
  "rescale_int a b v = (case v of PyInt i \<Rightarrow> PyInt (a * i + b) | PyFloat f \<Rightarrow> PyFloat f)"

definition is_int :: "number \<Rightarrow> bool" where
  "is_int v = (case v of PyInt i \<Rightarrow> True | PyFloat f \<Rightarrow> False)"

text \<open>The requests to the primary rich endpoint.\<close>

definition is_onecall :: "request \<Rightarrow> bool" where
  "is_onecall rq = (case rq of OneCallReq _ _ _ \<Rightarrow> True | _ \<Rightarrow> False)"

text \<open>
  The specification's success statuses: it calls a non-2xx status a failure.
\<close>

definition success_status :: "int \<Rightarrow> bool" where
  "success_status st \<longleftrightarrow> 200 \<le> st \<and> st < 300"

section \<open>Concrete worlds\<close>

definition example_snapshot :: snapshot where
  "example_snapshot =
     \<lparr>s_current = \<lparr>cur_dt = Val 1700028000, cur_temp = Val (15 / 2), cur_feels_like = Absent,
         cur_humidity = Val 80, cur_wind_speed = Val 3, cur_weather = Val [example_wx]\<rparr>,
      s_hourly = [], s_daily = [], s_timezone_offset = 3600\<rparr>"

text \<open>What the normalizer makes of \<open>example_cur\<close> and an empty forecast list.\<close>

definition example_fallback_snapshot :: snapshot where
  "example_fallback_snapshot =
     \<lparr>s_current = \<lparr>cur_dt = Val 1700028000, cur_temp = Val 7, cur_feels_like = Val 5,
         cur_humidity = Val 80, cur_wind_speed = Val 3, cur_weather = Val [example_wx]\<rparr>,
      s_hourly = [], s_daily = [], s_timezone_offset = 0\<rparr>"

definition example_world :: "snapshot reply \<Rightarrow> world" where
  "example_world rp =
     \<lparr>geo_reply = (\<lambda>_ _. Response 200 []),
      onecall_reply = (\<lambda>_ _ _ _. rp),
      weather_reply = (\<lambda>_ _ _ _. Response 200 example_cur),
      forecast_reply = (\<lambda>_ _ _ _. Response 200 []),
      clock = 1700028000,
      requests_log = []\<rparr>"

text \<open>
  A world whose \<^verbatim>\<open>/weather\<close> endpoint times out at the first request and answers from the
  second request on.
\<close>

definition is_weather :: "request \<Rightarrow> bool" where
  "is_weather rq = (case rq of WeatherReq _ _ _ \<Rightarrow> True | _ \<Rightarrow> False)"

definition flaky_world :: "snapshot reply \<Rightarrow> world" where
  "flaky_world rp =
     \<lparr>geo_reply = (\<lambda>_ _. Response 200 []),
      onecall_reply = (\<lambda>_ _ _ _. rp),
      weather_reply = (\<lambda>log _ _ _. if list_ex is_weather log then Response 200 example_cur
                                      else Raises (RequestError (u ''timed out''))),
      forecast_reply = (\<lambda>_ _ _ _. Response 200 []),
      clock = 1700028000,
      requests_log = []\<rparr>"

definition example_match :: geo_match where
  "example_match = \<lparr>g_lat = Some (103 / 2), g_lon = Some (- 1 / 8),
     g_name = Some (u ''London''), g_country = Some (u ''GB'')\<rparr>"

definition example_geo_world :: "geo_match list \<Rightarrow> world" where
  "example_geo_world ms =
     \<lparr>geo_reply = (\<lambda>_ _. Response 200 ms),
      onecall_reply = (\<lambda>_ _ _ _. Raises (RequestError (u ''timed out''))),
      weather_reply = (\<lambda>_ _ _ _. Response 200 example_cur),
      forecast_reply = (\<lambda>_ _ _ _. Response 200 []),
      clock = 1700028000,
      requests_log = []\<rparr>"

definition example_cur_no_temp :: cur_payload where
  "example_cur_no_temp = example_cur\<lparr>c_temp := None\<rparr>"

definition example_cur_no_humidity :: cur_payload where
  "example_cur_no_humidity = example_cur\<lparr>c_humidity := None\<rparr>"

definition example_cur_no_weather :: cur_payload where
  "example_cur_no_weather = example_cur\<lparr>c_weather := None\<rparr>"

definition absent_current :: current where
  "absent_current = \<lparr>cur_dt = Val 1700028000, cur_temp = Absent, cur_feels_like = Absent,
     cur_humidity = Absent, cur_wind_speed = Absent, cur_weather = Absent\<rparr>"

definition absent_snapshot :: snapshot where
  "absent_snapshot = \<lparr>s_current = absent_current, s_hourly = [], s_daily = [], s_timezone_offset = 0\<rparr>"

definition no_render :: "snapshot \<Rightarrow> ustr \<Rightarrow> ustr \<Rightarrow> ustr list \<times> error option" where
  "no_render data place_label units = ([], None)"

definition no_keyless :: "world \<Rightarrow> target \<Rightarrow> ustr \<Rightarrow> ustr \<Rightarrow> (ustr list \<times> error option) \<times> world" where
  "no_keyless w tgt place_label units = (([], None), w)"


section \<open>Concrete samples\<close>

text \<open>The binary64 values nearest to 0.1, 0.7, 1.2 and 2.4.\<close>

definition dbl_0_1 :: rat where "dbl_0_1 = 3602879701896397 / 36028797018963968"

definition dbl_0_7 :: rat where "dbl_0_7 = 3152519739159347 / 4503599627370496"

definition dbl_1_2 :: rat where "dbl_1_2 = 5404319552844595 / 4503599627370496"

definition dbl_2_4 :: rat where "dbl_2_4 = 5404319552844595 / 2251799813685248"

text \<open>The float \<^verbatim>\<open>2.0 ** 1023\<close>.\<close>

definition huge :: rat where "huge = 2 powi 1023"

section \<open>The hourly sequence\<close>

lemma hourly_loop_take:
  "length acc < 24 \<Longrightarrow> hourly_loop xs acc = acc @ map hour_of (take (24 - length acc) xs)"
proof (induction xs arbitrary: acc)
  case Nil
  then show ?case by simp
next
  case (Cons it rest)
  show ?case
  proof (cases "length acc = 23")
    case True
    then show ?thesis by (simp add: Let_def)
  next
    case False
    with Cons.prems have lt: "length (acc @ [hour_of it]) < 24" by simp
    from Cons.prems False obtain k where k: "24 - length acc = Suc k" "k = 24 - length (acc @ [hour_of it])"
      by (cases "24 - length acc") auto
    show ?thesis
      using Cons.IH [OF lt] lt k by (simp add: Let_def)
  qed
qed

lemma pad_loop_replicate:
  "pad_loop lst h = h @ replicate (24 - length h) lst"
proof (induction lst h rule: pad_loop.induct)
  case (1 lst hourly)
  show ?case
  proof (cases "length hourly < 24")
    case True
    then obtain k where k: "24 - length hourly = Suc k" by (cases "24 - length hourly") auto
    then have k': "24 - length (hourly @ [lst]) = k" by simp
    show ?thesis
      using "1.IH" [OF True] True k k' by (subst pad_loop.simps) (simp add: replicate_app_Cons_same)
  next
    case False
    then show ?thesis by (subst pad_loop.simps) simp
  qed
qed

lemma build_hourly_eq:
  "build_hourly fr_list =
     map hour_of (take 24 fr_list) @
     (if fr_list = [] then [] else replicate (24 - length fr_list) (hour_of (last fr_list)))"
proof (cases "fr_list = []")
  case True
  then show ?thesis by (simp add: build_hourly_def)
next
  case False
  have h: "hourly_loop fr_list [] = map hour_of (take 24 fr_list)"
    using hourly_loop_take [of "[]" fr_list] by simp
  show ?thesis
  proof (cases "length fr_list < 24")
    case True
    then have "last (map hour_of (take 24 fr_list)) = hour_of (last fr_list)"
      using False by (simp add: last_map)
    then show ?thesis using True False h
      by (simp add: build_hourly_def Let_def pad_loop_replicate)
  next
    case False
    then show ?thesis using h by (simp add: build_hourly_def Let_def)
  qed
qed

section \<open>The daily aggregation\<close>

lemma map_inv_Nil: "map_inv [] []"
  by (simp add: map_inv_def)

lemma setdefault_keys: "fst ` set (setdefault k m) = insert k (fst ` set m)"
  by (auto simp: setdefault_def)

lemma setdefault_distinct: "distinct (map fst m) \<Longrightarrow> distinct (map fst (setdefault k m))"
  by (auto simp: setdefault_def)

lemma append_entry_keys: "map fst (append_entry k t w dt m) = map fst m"
  by (induction m) (auto simp: append_entry_def)

lemma map_inv_step:
  assumes inv: "map_inv pre m"
  shows "map_inv (pre @ [it])
           (append_entry (item_day it) (i_temp_min it, i_temp_max it) (item_wx it) (item_ts it)
              (setdefault (item_day it) m))"
proof -
  let ?k = "item_day it"
  let ?m1 = "setdefault ?k m"
  let ?m2 = "append_entry ?k (i_temp_min it, i_temp_max it) (item_wx it) (item_ts it) ?m1"
  from inv have d: "distinct (map fst m)" and ks: "fst ` set m = item_day ` set pre"
    and gs: "\<And>k g. (k, g) \<in> set m \<Longrightarrow> g = group_of (spec_group k pre)"
    by (auto simp: map_inv_def)
  have d2: "distinct (map fst ?m2)"
    using d by (simp add: append_entry_keys setdefault_distinct)
  have "set (map fst ?m2) = insert ?k (fst ` set m)"
    by (simp only: append_entry_keys set_map setdefault_keys)
  then have ks2: "fst ` set ?m2 = item_day ` set (pre @ [it])"
    using ks by auto
  have g1: "g = group_of (spec_group k pre)" if "(k, g) \<in> set ?m1" for k g
  proof (cases "(k, g) \<in> set m")
    case True
    then show ?thesis by (rule gs)
  next
    case False
    with that have kg: "k = ?k" "g = empty_group" and "?k \<notin> fst ` set m"
      by (auto simp: setdefault_def split: if_splits)
    then have "?k \<notin> item_day ` set pre"
      using ks by simp
    then have "\<forall>x \<in> set pre. item_day x \<noteq> k"
      unfolding kg by (auto simp: image_iff)
    then have "spec_group k pre = []"
      by (simp add: spec_group_def filter_empty_conv)
    then show ?thesis using kg by (simp add: group_of_def empty_group_def)
  qed
  have g2: "g = group_of (spec_group k (pre @ [it]))" if "(k, g) \<in> set ?m2" for k g
  proof -
    from that obtain g0 where g0: "(k, g0) \<in> set ?m1"
      and g: "g = (if k = ?k then g0\<lparr>temps := temps g0 @ [(i_temp_min it, i_temp_max it)],
                  weathers := weathers g0 @ [item_wx it], dts := dts g0 @ [item_ts it]\<rparr> else g0)"
      by (auto simp: append_entry_def split: if_splits)
    from g1 [OF g0] g show ?thesis
      by (auto simp: group_of_def spec_group_def)
  qed
  show ?thesis
    unfolding map_inv_def using d2 ks2 g2 by blast
qed

lemma wf_utc_date: "well_formed_item it \<Longrightarrow> \<exists>dt. i_dt it = Some dt \<and> utc_date dt = Inr (item_day it) \<and> item_ts it = dt"
  by (auto simp: well_formed_item_def utc_date_def item_day_def item_ts_def split: option.splits)

lemma wf_first_weather: "well_formed_item it \<Longrightarrow> first_weather it = Inr (item_wx it)"
  by (auto simp: well_formed_item_def first_weather_def item_wx_def split: option.splits list.splits)

lemma daily_map_loop_inv:
  "map_inv pre m \<Longrightarrow> \<forall>it \<in> set items. well_formed_item it \<Longrightarrow>
     \<exists>m'. daily_map_loop items m = Inr m' \<and> map_inv (pre @ items) m'"
proof (induction items arbitrary: pre m)
  case Nil
  then show ?case by simp
next
  case (Cons it rest)
  from Cons.prems have wf: "well_formed_item it" and wfr: "\<forall>it \<in> set rest. well_formed_item it"
    by auto
  from wf_utc_date [OF wf] obtain dt where dt: "i_dt it = Some dt" "utc_date dt = Inr (item_day it)" "item_ts it = dt"
    by blast
  have step: "map_inv (pre @ [it])
           (append_entry (item_day it) (i_temp_min it, i_temp_max it) (item_wx it) dt
              (setdefault (item_day it) m))"
    using map_inv_step [OF Cons.prems(1), of it] dt by simp
  from Cons.IH [OF step wfr] show ?case
    using dt wf_first_weather [OF wf] by simp
qed


lemma fold_min_eq: "fold (\<lambda>y m. if y < m then y else m) xs (x::rat) = Min (set (x # xs))"
proof -
  have "(\<lambda>y m. if y < m then y else m) = (min :: rat \<Rightarrow> rat \<Rightarrow> rat)"
    by (intro ext) (simp add: min_def)
  then show ?thesis by (simp only: Min.set_eq_fold)
qed

lemma fold_max_eq: "fold (\<lambda>y m. if m < y then y else m) xs (x::rat) = Max (set (x # xs))"
proof -
  have "(\<lambda>y m. if m < y then y else m) = (max :: rat \<Rightarrow> rat \<Rightarrow> rat)"
    by (intro ext) (simp add: max_def)
  then show ?thesis by (simp only: Max.set_eq_fold)
qed

lemma opt_extreme_min:
  "opt_extreme py_min vs = Inr (if vs = [] then None else Some (Min (set vs)))"
  by (cases vs) (simp_all add: opt_extreme_def fold_min_eq)

lemma opt_extreme_max:
  "opt_extreme py_max vs = Inr (if vs = [] then None else Some (Max (set vs)))"
  by (cases vs) (simp_all add: opt_extreme_def fold_max_eq)

lemma map_filter_map: "List.map_filter f (map g xs) = List.map_filter (f \<circ> g) xs"
  by (induction xs) (simp_all add: List.map_filter_simps split: option.splits)

lemma day_entry_group_of:
  "grp \<noteq> [] \<Longrightarrow> day_entry now (group_of grp) = Inr (spec_day_entry grp)"
proof -
  assume ne: "grp \<noteq> []"
  then have lt: "length grp div 2 < length grp" by (cases grp) simp_all
  have a: "List.map_filter fst (temps (group_of grp)) = List.map_filter i_temp_min grp"
    by (simp add: group_of_def map_filter_map comp_def)
  have b: "List.map_filter snd (temps (group_of grp)) = List.map_filter i_temp_max grp"
    by (simp add: group_of_def map_filter_map comp_def)
  have c: "weathers (group_of grp) = map item_wx grp" "dts (group_of grp) = map item_ts grp"
    by (simp_all add: group_of_def)
  show ?thesis
    unfolding day_entry_def a b c opt_extreme_min opt_extreme_max
    using ne lt by (simp add: spec_day_entry_def spec_min_def spec_max_def Let_def)
qed

lemma daily_loop_eq:
  "\<forall>k \<in> set ks. \<exists>grp. grp \<noteq> [] \<and> map_of m k = Some (group_of grp) \<and> f k = spec_day_entry grp \<Longrightarrow>
     daily_loop now ks m acc = Inr (acc @ map f ks)"
proof (induction ks arbitrary: acc)
  case Nil
  then show ?case by simp
next
  case (Cons k ks)
  from Cons.prems obtain grp where g: "grp \<noteq> []" "map_of m k = Some (group_of grp)" "f k = spec_day_entry grp"
    by auto
  from Cons.prems have rest: "\<forall>k \<in> set ks. \<exists>grp. grp \<noteq> [] \<and> map_of m k = Some (group_of grp) \<and> f k = spec_day_entry grp"
    by simp
  show ?case
    using g Cons.IH [OF rest] by (simp add: day_entry_group_of)
qed

lemma build_daily_spec:
  assumes wf: "\<forall>it \<in> set fr_list. well_formed_item it"
  shows "build_daily now fr_list = Inr (spec_daily fr_list)"
proof -
  from daily_map_loop_inv [OF map_inv_Nil wf] obtain m
    where m: "daily_map_loop fr_list [] = Inr m" and inv: "map_inv fr_list m"
    by auto
  from inv have d: "distinct (map fst m)" and ks: "fst ` set m = item_day ` set fr_list"
    and gs: "\<And>k g. (k, g) \<in> set m \<Longrightarrow> g = group_of (spec_group k fr_list)"
    by (auto simp: map_inv_def)
  have "sorted_list_of_set (set (map fst m)) = sort (remdups (map fst m))"
    by (rule sorted_list_of_set_sort_remdups)
  with d have "sort (map fst m) = sorted_list_of_set (set (map fst m))"
    by (simp only: distinct_remdups_id)
  also have "\<dots> = sorted_list_of_set (set (map item_day fr_list))"
    using ks by simp
  also have "\<dots> = spec_days fr_list"
    unfolding spec_days_def by (rule sorted_list_of_set_sort_remdups)
  finally have keys: "sort (map fst m) = spec_days fr_list" .
  have "\<exists>grp. grp \<noteq> [] \<and> map_of m k = Some (group_of grp) \<and>
          spec_day_entry (spec_group k fr_list) = spec_day_entry grp"
    if "k \<in> set (spec_days fr_list)" for k
  proof -
    from that have "k \<in> item_day ` set fr_list" by (simp add: spec_days_def)
    then have ne: "spec_group k fr_list \<noteq> []"
      by (auto simp: spec_group_def filter_empty_conv)
    from \<open>k \<in> item_day ` set fr_list\<close> ks obtain g where "(k, g) \<in> set m" by force
    with d gs have "map_of m k = Some (group_of (spec_group k fr_list))"
      by (metis map_of_is_SomeI)
    with ne show ?thesis by blast
  qed
  then have "daily_loop now (spec_days fr_list) m [] =
      Inr ([] @ map (\<lambda>d. spec_day_entry (spec_group d fr_list)) (spec_days fr_list))"
    by (intro daily_loop_eq) blast
  then show ?thesis
    by (simp add: build_daily_def m keys spec_daily_def)
qed

lemma spec_daily_length: "length (spec_daily items) = card (item_day ` set items)"
  by (simp add: spec_daily_def spec_days_def length_remdups_card_conv)

lemma spec_group_mid:
  assumes "k \<in> item_day ` set items"
  shows "item_day (spec_group k items ! (length (spec_group k items) div 2)) = k"
proof -
  let ?g = "spec_group k items"
  from assms have "?g \<noteq> []" by (auto simp: spec_group_def filter_empty_conv)
  then have "length ?g div 2 < length ?g" by (cases ?g) simp_all
  then have "?g ! (length ?g div 2) \<in> set ?g" by (rule nth_mem)
  then show ?thesis by (simp add: spec_group_def)
qed

lemma spec_daily_days:
  assumes wf: "\<forall>it \<in> set items. well_formed_item it"
  shows "map (\<lambda>d. d_dt d div 86400) (spec_daily items) = spec_days items"
proof -
  have "item_ts it div 86400 = item_day it" for it
    by (simp add: item_ts_def item_day_def split: option.splits)
  then have "d_dt (spec_day_entry (spec_group k items)) div 86400 = k"
    if "k \<in> set (spec_days items)" for k
    using that spec_group_mid [of k items]
    by (simp add: spec_day_entry_def Let_def spec_days_def)
  then show ?thesis
    by (simp add: spec_daily_def comp_def map_idI)
qed

lemma spec_days_strict: "sorted_wrt (<) (spec_days items)"
  by (simp add: spec_days_def strict_sorted_iff)

text \<open>The entries must all be well formed for the normalizer to return at all.\<close>

lemma daily_map_loop_returns:
  "daily_map_loop items m = Inr m' \<Longrightarrow> \<forall>it \<in> set items. well_formed_item it"
proof (induction items arbitrary: m)
  case Nil
  then show ?case by simp
next
  case (Cons it rest)
  from Cons.prems obtain dt dy w
    where dt: "i_dt it = Some dt" and dy: "utc_date dt = Inr dy" and w: "first_weather it = Inr w"
      and r: "daily_map_loop rest
                (append_entry dy (i_temp_min it, i_temp_max it) w dt (setdefault dy m)) = Inr m'"
    by (auto split: option.splits sum.splits)
  have "well_formed_item it"
    using dt dy w
    by (auto simp: well_formed_item_def utc_date_def first_weather_def
        split: if_splits option.splits list.splits)
  with Cons.IH [OF r] show ?case by simp
qed

lemma normalize_fallback_returns_iff:
  "(\<exists>s. normalize_fallback now cur fr_list = Inr s) \<longleftrightarrow>
   (\<forall>it \<in> set fr_list. well_formed_item it)"
proof
  assume "\<exists>s. normalize_fallback now cur fr_list = Inr s"
  then obtain m where "daily_map_loop fr_list [] = Inr m"
    by (auto simp: normalize_fallback_def build_daily_def Let_def split: sum.splits)
  then show "\<forall>it \<in> set fr_list. well_formed_item it"
    by (rule daily_map_loop_returns)
next
  assume "\<forall>it \<in> set fr_list. well_formed_item it"
  then have "build_daily now fr_list = Inr (spec_daily fr_list)"
    by (rule build_daily_spec)
  then show "\<exists>s. normalize_fallback now cur fr_list = Inr s"
    by (simp add: normalize_fallback_def Let_def)
qed

section \<open>The normalizer's hourly and daily output\<close>

text \<open>
  Claim C2. Each hourly element is a forecast entry copied field by field: its timestamp, its
  temperature and its condition list (empty when the entry has none). For every forecast list
  of \<open>n\<close> entries the hourly list that \<^verbatim>\<open>fetch_weather_and_forecast\<close> builds starts with
  the first \<open>min 24 n\<close> entries. With 24 or more entries it is exactly the first 24; with
  \<open>1 \<le> n < 24\<close> entries it has 24 elements, the last \<open>24 - n\<close> being copies of entry \<open>n\<close>;
  with no entry it is empty. Whenever the normalizer returns, this list is the \<^verbatim>\<open>hourly\<close> of
  its result, and it returns on every payload whose entries have a timestamp in the range of
  \<^verbatim>\<open>datetime\<close> and no empty \<^verbatim>\<open>"weather"\<close> list.
\<close>

theorem hourly_first_24_padded:
  "(\<forall>it. h_dt (hour_of it) = i_dt it \<and> h_temp (hour_of it) = i_temp it \<and>
         h_weather (hour_of it) = (case i_weather it of None \<Rightarrow> [] | Some ws \<Rightarrow> ws)) \<and>
   take (min 24 (length fr_list)) (build_hourly fr_list) =
     map hour_of (take (min 24 (length fr_list)) fr_list) \<and>
   (fr_list = [] \<longrightarrow> build_hourly fr_list = []) \<and>
   (24 \<le> length fr_list \<longrightarrow> build_hourly fr_list = map hour_of (take 24 fr_list)) \<and>
   (1 \<le> length fr_list \<and> length fr_list < 24 \<longrightarrow>
      length (build_hourly fr_list) = 24 \<and>
      drop (length fr_list) (build_hourly fr_list) =
        replicate (24 - length fr_list) (hour_of (fr_list ! (length fr_list - 1)))) \<and>
   (\<forall>s. normalize_fallback now cur fr_list = Inr s \<longrightarrow> s_hourly s = build_hourly fr_list) \<and>
   ((\<forall>it \<in> set fr_list. well_formed_item it) \<longrightarrow>
      (\<exists>s. normalize_fallback now cur fr_list = Inr s))"
proof -
  let ?h = "build_hourly fr_list"
  have 0: "\<forall>it. h_dt (hour_of it) = i_dt it \<and> h_temp (hour_of it) = i_temp it \<and>
         h_weather (hour_of it) = (case i_weather it of None \<Rightarrow> [] | Some ws \<Rightarrow> ws)"
    by (simp add: hour_of_def)
  have 1: "take (min 24 (length fr_list)) ?h = map hour_of (take (min 24 (length fr_list)) fr_list)"
    by (simp add: build_hourly_eq take_map min_def)
  have 2: "fr_list = [] \<longrightarrow> ?h = []"
    by (simp add: build_hourly_eq)
  have 3: "24 \<le> length fr_list \<longrightarrow> ?h = map hour_of (take 24 fr_list)"
    by (simp add: build_hourly_eq)
  have 4: "1 \<le> length fr_list \<and> length fr_list < 24 \<longrightarrow>
        length ?h = 24 \<and>
        drop (length fr_list) ?h =
          replicate (24 - length fr_list) (hour_of (fr_list ! (length fr_list - 1)))"
    by (auto simp: build_hourly_eq last_conv_nth)
  have 5: "\<forall>s. normalize_fallback now cur fr_list = Inr s \<longrightarrow> s_hourly s = ?h"
    by (auto simp: normalize_fallback_def Let_def split: sum.splits)
  have 6: "(\<forall>it \<in> set fr_list. well_formed_item it) \<longrightarrow>
      (\<exists>s. normalize_fallback now cur fr_list = Inr s)"
  proof
    assume wf: "\<forall>it \<in> set fr_list. well_formed_item it"
    from build_daily_spec [OF wf] have "build_daily now fr_list = Inr (spec_daily fr_list)" .
    then show "\<exists>s. normalize_fallback now cur fr_list = Inr s"
      by (simp add: normalize_fallback_def Let_def)
  qed
  from 0 1 2 3 4 5 6 show ?thesis by (intro conjI)
qed

text \<open>
  Five entries, three hours apart from 1700028000 with the temperatures 0, 0.5, 1, 1.5 and 2:
  24 hourly elements, the last 19 with the timestamp, temperature and conditions of the fifth
  entry.
\<close>

theorem hourly_first_24_padded_witness:
  "list_all well_formed_item (example_forecast 5) \<and>
   (\<exists>s. normalize_fallback 0 example_cur (example_forecast 5) = Inr s \<and>
      length (s_hourly s) = 24 \<and>
      map h_dt (s_hourly s) =
        [Some 1700028000, Some 1700038800, Some 1700049600, Some 1700060400, Some 1700071200] @
        replicate 19 (Some 1700071200) \<and>
      map h_temp (s_hourly s) =
        [Some 0, Some (1 / 2), Some 1, Some (3 / 2), Some 2] @ replicate 19 (Some 2) \<and>
      map h_weather (s_hourly s) = replicate 24 [example_wx])"
proof -
  let ?f = "example_forecast 5"
  have wf: "list_all well_formed_item ?f"
    by code_simp
  then have wf': "\<forall>it \<in> set ?f. well_formed_item it"
    by (simp add: list_all_iff)
  have f: "?f = [example_item 0, example_item 1, example_item 2, example_item 3, example_item 4]"
    by (simp add: example_forecast_def upt_rec eval_nat_numeral)
  have len: "length ?f = 5" and nth: "?f ! 4 = example_item 4"
    by (simp_all add: f)
  note t = hourly_first_24_padded [of ?f 0 example_cur]
  from t wf' obtain s where s: "normalize_fallback 0 example_cur ?f = Inr s"
    by blast
  with t have h: "s_hourly s = build_hourly ?f"
    by blast
  from t len nth have tk: "take 5 (build_hourly ?f) = map hour_of ?f"
    and dr: "drop 5 (build_hourly ?f) = replicate 19 (hour_of (example_item 4))"
    by simp_all
  have "build_hourly ?f = take 5 (build_hourly ?f) @ drop 5 (build_hourly ?f)"
    by simp
  then have eq: "build_hourly ?f = map hour_of ?f @ replicate 19 (hour_of (example_item 4))"
    using tk dr by simp
  from t have fields: "h_dt (hour_of it) = i_dt it" "h_temp (hour_of it) = i_temp it"
    "h_weather (hour_of it) = (case i_weather it of None \<Rightarrow> [] | Some ws \<Rightarrow> ws)" for it
    by blast+
  have eq2: "s_hourly s =
      map hour_of [example_item 0, example_item 1, example_item 2, example_item 3, example_item 4] @
      replicate 19 (hour_of (example_item 4))"
    using h eq f by simp
  have r5: "replicate 5 x = [x, x, x, x, x]" for x :: "wx list"
    by (simp add: eval_nat_numeral)
  have r24: "replicate 24 x = [x, x, x, x, x] @ replicate 19 x" for x :: "wx list"
    unfolding r5 [symmetric] replicate_add [symmetric] by simp
  have "length (s_hourly s) = 24 \<and>
      map h_dt (s_hourly s) =
        [Some 1700028000, Some 1700038800, Some 1700049600, Some 1700060400, Some 1700071200] @
        replicate 19 (Some 1700071200) \<and>
      map h_temp (s_hourly s) =
        [Some 0, Some (1 / 2), Some 1, Some (3 / 2), Some 2] @ replicate 19 (Some 2) \<and>
      map h_weather (s_hourly s) = replicate 24 [example_wx]"
    unfolding eq2 by (simp add: fields example_item_def r24)
  with s wf show ?thesis by blast
qed

text \<open>
  Claim C1. For a fallback payload on which the normalizer returns, the daily output is the
  aggregation \<open>spec_daily\<close>: one element per distinct UTC day of the entries' timestamps, in
  ascending order of the day; per day the minimum of the non-null minimum temperatures and the
  maximum of the non-null maximum temperatures (\<open>None\<close> when there is none); weather and
  timestamp of the entry at index \<open>count div 2\<close> of the day's entries.
\<close>

theorem daily_grouped_by_utc_day:
  assumes "\<forall>it \<in> set fr_list. well_formed_item it"
  shows "\<exists>s. normalize_fallback now cur fr_list = Inr s \<and>
     s_daily s = spec_daily fr_list \<and>
     length (s_daily s) = card (item_day ` set fr_list) \<and>
     map (\<lambda>d. d_dt d div 86400) (s_daily s) = sort (remdups (map item_day fr_list)) \<and>
     sorted_wrt (<) (map (\<lambda>d. d_dt d div 86400) (s_daily s))"
proof -
  from build_daily_spec [OF assms] have d: "build_daily now fr_list = Inr (spec_daily fr_list)" .
  have s: "\<exists>s. normalize_fallback now cur fr_list = Inr s \<and> s_daily s = spec_daily fr_list"
    by (simp add: normalize_fallback_def d Let_def)
  have days: "map (\<lambda>d. d_dt d div 86400) (spec_daily fr_list) = sort (remdups (map item_day fr_list))"
    using spec_daily_days [OF assms] by (simp add: spec_days_def)
  have "sorted_wrt (<) (map (\<lambda>d. d_dt d div 86400) (spec_daily fr_list))"
    using spec_days_strict [of fr_list] spec_daily_days [OF assms] by simp
  with s days spec_daily_length [of fr_list] show ?thesis by metis
qed

text \<open>Thirty 3-hour entries over four days give four daily elements.\<close>

lemma example_days: "map item_day (example_forecast 30) =
   replicate 6 19676 @ replicate 8 19677 @ replicate 8 19678 @ replicate 8 19679"
  by code_simp

lemma example_spec_days: "spec_days (example_forecast 30) = [19676, 19677, 19678, 19679]"
  unfolding spec_days_def example_days by code_simp

lemma example_group0: "spec_group 19676 (example_forecast 30) = map example_item [0..<6]"
  by code_simp

lemma example_group1: "spec_group 19677 (example_forecast 30) = map example_item [6..<14]"
  by code_simp

lemma example_group2: "spec_group 19678 (example_forecast 30) = map example_item [14..<22]"
  by code_simp

lemma example_group3: "spec_group 19679 (example_forecast 30) = map example_item [22..<30]"
  by code_simp

lemma example_entry0: "spec_day_entry (map example_item [0..<6]) =
     \<lparr>d_dt = 1700060400, d_min = Some (- 1), d_max = Some (7 / 2), d_weather = [example_wx]\<rparr>"
  by code_simp

lemma example_entry1: "spec_day_entry (map example_item [6..<14]) =
     \<lparr>d_dt = 1700136000, d_min = Some 2, d_max = Some (15 / 2), d_weather = [example_wx]\<rparr>"
  by code_simp

lemma example_entry2: "spec_day_entry (map example_item [14..<22]) =
     \<lparr>d_dt = 1700222400, d_min = Some 6, d_max = Some (23 / 2), d_weather = [example_wx]\<rparr>"
  by code_simp

lemma example_entry3: "spec_day_entry (map example_item [22..<30]) =
     \<lparr>d_dt = 1700308800, d_min = Some 10, d_max = Some (31 / 2), d_weather = [example_wx]\<rparr>"
  by code_simp

lemma example_spec_daily:
  "spec_daily (example_forecast 30) =
     [\<lparr>d_dt = 1700060400, d_min = Some (- 1), d_max = Some (7 / 2), d_weather = [example_wx]\<rparr>,
      \<lparr>d_dt = 1700136000, d_min = Some 2, d_max = Some (15 / 2), d_weather = [example_wx]\<rparr>,
      \<lparr>d_dt = 1700222400, d_min = Some 6, d_max = Some (23 / 2), d_weather = [example_wx]\<rparr>,
      \<lparr>d_dt = 1700308800, d_min = Some 10, d_max = Some (31 / 2), d_weather = [example_wx]\<rparr>]"
  unfolding spec_daily_def example_spec_days list.map
    example_group0 example_group1 example_group2 example_group3
    example_entry0 example_entry1 example_entry2 example_entry3 ..

theorem daily_grouped_by_utc_day_witness:
  "list_all well_formed_item (example_forecast 30) \<and>
   length (example_forecast 30) = 30 \<and>
   card (item_day ` set (example_forecast 30)) = 4 \<and>
   (\<exists>s. normalize_fallback 0 example_cur (example_forecast 30) = Inr s \<and>
      length (s_daily s) = 4 \<and>
      map (\<lambda>d. d_dt d div 86400) (s_daily s) = [19676, 19677, 19678, 19679] \<and>
      map d_min (s_daily s) = [Some (- 1), Some 2, Some 6, Some 10] \<and>
      map d_max (s_daily s) = [Some (7 / 2), Some (15 / 2), Some (23 / 2), Some (31 / 2)] \<and>
      map d_dt (s_daily s) = [1700060400, 1700136000, 1700222400, 1700308800])"
proof -
  have wf: "list_all well_formed_item (example_forecast 30)"
    by code_simp
  then have wf': "\<forall>it \<in> set (example_forecast 30). well_formed_item it"
    by (simp add: list_all_iff)
  have len: "length (example_forecast 30) = 30"
    by (simp add: example_forecast_def)
  have "card (item_day ` set (example_forecast 30)) = length (spec_days (example_forecast 30))"
    by (simp add: spec_days_def length_remdups_card_conv)
  then have c: "card (item_day ` set (example_forecast 30)) = 4"
    by (simp add: example_spec_days)
  from daily_grouped_by_utc_day [OF wf', of 0 example_cur] obtain s
    where s: "normalize_fallback 0 example_cur (example_forecast 30) = Inr s"
      and d: "s_daily s = spec_daily (example_forecast 30)"
    by blast
  have p1: "length (s_daily s) = 4"
    unfolding d example_spec_daily by simp
  have p2: "map (\<lambda>d. d_dt d div 86400) (s_daily s) = [19676, 19677, 19678, 19679]"
    unfolding d example_spec_daily by simp
  have p3: "map d_min (s_daily s) = [Some (- 1), Some 2, Some 6, Some 10]"
    unfolding d example_spec_daily by simp
  have p4: "map d_max (s_daily s) = [Some (7 / 2), Some (15 / 2), Some (23 / 2), Some (31 / 2)]"
    unfolding d example_spec_daily by simp
  have p5: "map d_dt (s_daily s) = [1700060400, 1700136000, 1700222400, 1700308800]"
    unfolding d example_spec_daily by simp
  show ?thesis
    by (intro conjI exI [of _ s]) (fact wf len c s p1 p2 p3 p4 p5)+
qed

section \<open>The adapter\<close>

lemma fwf_log:
  "length (filter is_onecall (requests_log (snd (fetch_weather_and_forecast w lat lon units)))) =
   length (filter is_onecall (requests_log w))"
  by (simp add: fetch_weather_and_forecast_def log_request_def is_onecall_def Let_def
      split: sum.splits)

lemma fwf_log_prefix:
  "\<exists>rs. requests_log (snd (fetch_weather_and_forecast w lat lon units)) = requests_log w @ WeatherReq lat lon units # rs"
  by (simp add: fetch_weather_and_forecast_def log_request_def Let_def split: sum.splits)

lemma onecall_try_log:
  "length (filter is_onecall (requests_log (snd (onecall_try w lat lon units)))) =
   length (filter is_onecall (requests_log w)) + 1"
proof -
  let ?w1 = "log_request (OneCallReq lat lon units) w"
  have one: "length (filter is_onecall (requests_log ?w1)) = length (filter is_onecall (requests_log w)) + 1"
    by (simp add: log_request_def is_onecall_def)
  show ?thesis
    using one fwf_log [of ?w1 lat lon units]
    by (cases "onecall_reply w (requests_log w) lat lon units") (simp_all add: onecall_try_def Let_def)
qed

lemma fetch_onecall_log:
  "length (filter is_onecall (requests_log (snd (fetch_onecall w lat lon units)))) =
   length (filter is_onecall (requests_log w)) + 1"
proof (cases "onecall_try w lat lon units")
  case (Pair r w')
  then have w': "length (filter is_onecall (requests_log w')) = length (filter is_onecall (requests_log w)) + 1"
    using onecall_try_log [of w lat lon units] by simp
  show ?thesis
    using Pair w' fwf_log [of w' lat lon units]
    by (cases r) (simp_all add: fetch_onecall_def)
qed

text \<open>
  Claim C7, as the code has it. One call of \<^verbatim>\<open>fetch_onecall\<close> sends exactly one request to
  the primary endpoint. If the answer has status 200 and a JSON body, the body is returned
  unchanged and no other request is made. If the answer has any other status, the fallback fetch
  is started after the one primary request; should it raise a \<open>RequestException\<close>, the handler
  starts the fallback fetch once more, and the result is that of the last run. If the call to
  the primary raises a \<open>RequestException\<close>, or the body of a 200 answer is not JSON, the result
  is that of one run of the fallback fetch. Any other exception of the call leaves the function.
  A \<open>RequestException\<close> is an \<open>HTTPError\<close> or one of its siblings.
\<close>

theorem fetch_onecall_tries_once_then_falls_back:
  "(\<forall>body. onecall_reply w (requests_log w) lat lon units = Response 200 body \<longrightarrow>
      fetch_onecall w lat lon units = (Inr body, log_request (OneCallReq lat lon units) w)) \<and>
   (\<forall>st. st \<noteq> 200 \<and>
        (onecall_reply w (requests_log w) lat lon units = NotJson st \<or>
         (\<exists>body. onecall_reply w (requests_log w) lat lon units = Response st body)) \<longrightarrow>
      fetch_onecall w lat lon units =
        (case fetch_weather_and_forecast (log_request (OneCallReq lat lon units) w) lat lon units of
           (Inr data, w2) \<Rightarrow> (Inr data, w2)
         | (Inl e, w2) \<Rightarrow>
             if is_request_exception e then fetch_weather_and_forecast w2 lat lon units
             else (Inl e, w2))) \<and>
   (onecall_reply w (requests_log w) lat lon units = NotJson 200 \<or>
    (\<exists>e. onecall_reply w (requests_log w) lat lon units = Raises e \<and> is_request_exception e) \<longrightarrow>
      fetch_onecall w lat lon units =
        fetch_weather_and_forecast (log_request (OneCallReq lat lon units) w) lat lon units) \<and>
   (\<forall>e. onecall_reply w (requests_log w) lat lon units = Raises e \<and> \<not> is_request_exception e \<longrightarrow>
      fetch_onecall w lat lon units = (Inl e, log_request (OneCallReq lat lon units) w)) \<and>
   (\<forall>e. is_request_exception e \<longleftrightarrow> (\<exists>m. e = HTTPError m \<or> e = RequestError m)) \<and>
   length (filter is_onecall (requests_log (snd (fetch_onecall w lat lon units)))) =
     length (filter is_onecall (requests_log w)) + 1"
proof -
  let ?w1 = "log_request (OneCallReq lat lon units) w"
  let ?rp = "onecall_reply w (requests_log w) lat lon units"
  have j: "is_request_exception json_decode_error"
    by (simp add: json_decode_error_def is_request_exception_def)
  have 1: "\<forall>body. ?rp = Response 200 body \<longrightarrow> fetch_onecall w lat lon units = (Inr body, ?w1)"
    by (simp add: fetch_onecall_def onecall_try_def Let_def)
  have 2: "\<forall>st. st \<noteq> 200 \<and> (?rp = NotJson st \<or> (\<exists>body. ?rp = Response st body)) \<longrightarrow>
      fetch_onecall w lat lon units =
        (case fetch_weather_and_forecast ?w1 lat lon units of
           (Inr data, w2) \<Rightarrow> (Inr data, w2)
         | (Inl e, w2) \<Rightarrow>
             if is_request_exception e then fetch_weather_and_forecast w2 lat lon units
             else (Inl e, w2))"
    by (auto simp: fetch_onecall_def onecall_try_def Let_def split: prod.splits sum.splits)
  have 3: "?rp = NotJson 200 \<or> (\<exists>e. ?rp = Raises e \<and> is_request_exception e) \<longrightarrow>
      fetch_onecall w lat lon units = fetch_weather_and_forecast ?w1 lat lon units"
    using j by (auto simp: fetch_onecall_def onecall_try_def Let_def)
  have 4: "\<forall>e. ?rp = Raises e \<and> \<not> is_request_exception e \<longrightarrow>
      fetch_onecall w lat lon units = (Inl e, ?w1)"
    by (simp add: fetch_onecall_def onecall_try_def Let_def)
  have 5: "\<forall>e. is_request_exception e \<longleftrightarrow> (\<exists>m. e = HTTPError m \<or> e = RequestError m)"
  proof
    fix e show "is_request_exception e \<longleftrightarrow> (\<exists>m. e = HTTPError m \<or> e = RequestError m)"
      by (cases e) (simp_all add: is_request_exception_def)
  qed
  from 1 2 3 4 5 fetch_onecall_log [of w lat lon units] show ?thesis
    by (intro conjI)
qed

text \<open>
  The fallback fetch where \<^verbatim>\<open>/weather\<close> answers \<open>example_cur\<close> and \<^verbatim>\<open>/forecast\<close>
  an empty list: the normalized answer, after the two fallback requests.
\<close>

lemma fwf_answers:
  assumes "weather_reply w (requests_log w) lat lon units = Response 200 example_cur"
    and "forecast_reply w (requests_log w @ [WeatherReq lat lon units]) lat lon units = Response 200 []"
  shows "fetch_weather_and_forecast w lat lon units =
     (Inr example_fallback_snapshot,
      w\<lparr>requests_log := requests_log w @ [WeatherReq lat lon units, ForecastReq lat lon units]\<rparr>)"
  using assms
  by (simp add: fetch_weather_and_forecast_def log_request_def get_json_def
      raise_for_status_def normalize_fallback_def build_hourly_def build_daily_def
      example_cur_def example_fallback_snapshot_def to_field_def Let_def)

lemma fwf_times_out:
  assumes "weather_reply w (requests_log w) lat lon units = Raises e"
  shows "fetch_weather_and_forecast w lat lon units =
     (Inl e, w\<lparr>requests_log := requests_log w @ [WeatherReq lat lon units]\<rparr>)"
  using assms
  by (simp add: fetch_weather_and_forecast_def log_request_def get_json_def Let_def)

lemma example_fallback:
  "fetch_weather_and_forecast (log_request (OneCallReq 51 0 (u ''metric'')) (example_world rp)) 51 0 (u ''metric'') =
     (Inr example_fallback_snapshot,
      (example_world rp)\<lparr>requests_log :=
         [OneCallReq 51 0 (u ''metric''), WeatherReq 51 0 (u ''metric''), ForecastReq 51 0 (u ''metric'')]\<rparr>)"
proof -
  let ?w1 = "log_request (OneCallReq 51 0 (u ''metric'')) (example_world rp)"
  have "fetch_weather_and_forecast ?w1 51 0 (u ''metric'') =
     (Inr example_fallback_snapshot,
      ?w1\<lparr>requests_log := requests_log ?w1 @ [WeatherReq 51 0 (u ''metric''), ForecastReq 51 0 (u ''metric'')]\<rparr>)"
    by (rule fwf_answers) (simp_all add: log_request_def example_world_def)
  then show ?thesis
    by (simp add: log_request_def example_world_def)
qed

lemma flaky_fallback:
  "(case fetch_weather_and_forecast (log_request (OneCallReq 51 0 (u ''metric'')) (flaky_world rp)) 51 0 (u ''metric'') of
      (Inr data, w2) \<Rightarrow> (Inr data, w2)
    | (Inl e, w2) \<Rightarrow>
        if is_request_exception e then fetch_weather_and_forecast w2 51 0 (u ''metric'')
        else (Inl e, w2)) =
     (Inr example_fallback_snapshot,
      (flaky_world rp)\<lparr>requests_log :=
         [OneCallReq 51 0 (u ''metric''), WeatherReq 51 0 (u ''metric''), WeatherReq 51 0 (u ''metric''),
          ForecastReq 51 0 (u ''metric'')]\<rparr>)"
proof -
  let ?m = "u ''metric''"
  let ?w1 = "log_request (OneCallReq 51 0 ?m) (flaky_world rp)"
  let ?w2 = "?w1\<lparr>requests_log := requests_log ?w1 @ [WeatherReq 51 0 ?m]\<rparr>"
  have 1: "fetch_weather_and_forecast ?w1 51 0 ?m = (Inl (RequestError (u ''timed out'')), ?w2)"
    by (rule fwf_times_out) (simp add: log_request_def flaky_world_def is_weather_def)
  have 2: "fetch_weather_and_forecast ?w2 51 0 ?m =
     (Inr example_fallback_snapshot,
      ?w2\<lparr>requests_log := requests_log ?w2 @ [WeatherReq 51 0 ?m, ForecastReq 51 0 ?m]\<rparr>)"
    by (rule fwf_answers) (simp_all add: log_request_def flaky_world_def is_weather_def)
  have 3: "is_request_exception (RequestError (u ''timed out''))"
    by (simp add: is_request_exception_def)
  show ?thesis
    unfolding 1 using 2 3 by (simp add: log_request_def flaky_world_def)
qed

text \<open>
  Five calls: a 200 answer with a JSON body; a 401 answer; a timeout of the primary; a 200 answer
  whose body is not JSON; and a 401 answer where the first run of the fallback fetch times out
  at \<^verbatim>\<open>/weather\<close>, so that the fallback fetch runs twice.
\<close>

theorem fetch_onecall_tries_once_then_falls_back_witness:
  "fetch_onecall (example_world (Response 200 example_snapshot)) 51 0 (u ''metric'') =
     (Inr example_snapshot,
      (example_world (Response 200 example_snapshot))\<lparr>requests_log := [OneCallReq 51 0 (u ''metric'')]\<rparr>) \<and>
   fetch_onecall (example_world (Response 401 example_snapshot)) 51 0 (u ''metric'') =
     (Inr example_fallback_snapshot,
      (example_world (Response 401 example_snapshot))\<lparr>requests_log :=
         [OneCallReq 51 0 (u ''metric''), WeatherReq 51 0 (u ''metric''), ForecastReq 51 0 (u ''metric'')]\<rparr>) \<and>
   fetch_onecall (example_world (Raises (RequestError (u ''timed out'')))) 51 0 (u ''metric'') =
     (Inr example_fallback_snapshot,
      (example_world (Raises (RequestError (u ''timed out''))))\<lparr>requests_log :=
         [OneCallReq 51 0 (u ''metric''), WeatherReq 51 0 (u ''metric''), ForecastReq 51 0 (u ''metric'')]\<rparr>) \<and>
   fetch_onecall (example_world (NotJson 200)) 51 0 (u ''metric'') =
     (Inr example_fallback_snapshot,
      (example_world (NotJson 200))\<lparr>requests_log :=
         [OneCallReq 51 0 (u ''metric''), WeatherReq 51 0 (u ''metric''), ForecastReq 51 0 (u ''metric'')]\<rparr>) \<and>
   fetch_onecall (flaky_world (Response 401 example_snapshot)) 51 0 (u ''metric'') =
     (Inr example_fallback_snapshot,
      (flaky_world (Response 401 example_snapshot))\<lparr>requests_log :=
         [OneCallReq 51 0 (u ''metric''), WeatherReq 51 0 (u ''metric''), WeatherReq 51 0 (u ''metric''),
          ForecastReq 51 0 (u ''metric'')]\<rparr>)"
proof -
  let ?m = "u ''metric''"
  have a: "onecall_reply (example_world rp) (requests_log (example_world rp)) 51 0 ?m = rp" for rp
    by (simp add: example_world_def)
  have a': "onecall_reply (flaky_world rp) (requests_log (flaky_world rp)) 51 0 ?m = rp" for rp
    by (simp add: flaky_world_def)
  have b: "is_request_exception (RequestError (u ''timed out''))"
    by (simp add: is_request_exception_def)
  have c: "log_request (OneCallReq 51 0 ?m) (example_world rp) =
      (example_world rp)\<lparr>requests_log := [OneCallReq 51 0 ?m]\<rparr>" for rp
    by (simp add: log_request_def example_world_def)
  have d: "(case (Inr example_fallback_snapshot, w') of
           (Inr data, w2) \<Rightarrow> (Inr data, w2)
         | (Inl e, w2) \<Rightarrow>
             if is_request_exception e then fetch_weather_and_forecast w2 51 0 ?m
             else (Inl e, w2)) = (Inr example_fallback_snapshot, w')" for w' :: world
    by simp
  note t = fetch_onecall_tries_once_then_falls_back [of _ 51 0 ?m]
  have 1: "fetch_onecall (example_world (Response 200 example_snapshot)) 51 0 ?m =
     (Inr example_snapshot, (example_world (Response 200 example_snapshot))\<lparr>requests_log := [OneCallReq 51 0 ?m]\<rparr>)"
    using t [of "example_world (Response 200 example_snapshot)"] a [of "Response 200 example_snapshot"]
    by (simp add: c)
  have 2: "fetch_onecall (example_world (Response 401 example_snapshot)) 51 0 ?m =
     (Inr example_fallback_snapshot,
      (example_world (Response 401 example_snapshot))\<lparr>requests_log :=
         [OneCallReq 51 0 ?m, WeatherReq 51 0 ?m, ForecastReq 51 0 ?m]\<rparr>)"
    using t [of "example_world (Response 401 example_snapshot)"] a [of "Response 401 example_snapshot"]
    by (simp add: example_fallback)
  have 3: "fetch_onecall (example_world (Raises (RequestError (u ''timed out'')))) 51 0 ?m =
     (Inr example_fallback_snapshot,
      (example_world (Raises (RequestError (u ''timed out''))))\<lparr>requests_log :=
         [OneCallReq 51 0 ?m, WeatherReq 51 0 ?m, ForecastReq 51 0 ?m]\<rparr>)"
    using t [of "example_world (Raises (RequestError (u ''timed out'')))"] a [of "Raises (RequestError (u ''timed out''))"] b
    by (simp add: example_fallback)
  have 4: "fetch_onecall (example_world (NotJson 200)) 51 0 ?m =
     (Inr example_fallback_snapshot,
      (example_world (NotJson 200))\<lparr>requests_log :=
         [OneCallReq 51 0 ?m, WeatherReq 51 0 ?m, ForecastReq 51 0 ?m]\<rparr>)"
    using t [of "example_world (NotJson 200)"] a [of "NotJson 200"]
    by (simp add: example_fallback)
  have 5: "fetch_onecall (flaky_world (Response 401 example_snapshot)) 51 0 ?m =
     (Inr example_fallback_snapshot,
      (flaky_world (Response 401 example_snapshot))\<lparr>requests_log :=
         [OneCallReq 51 0 ?m, WeatherReq 51 0 ?m, WeatherReq 51 0 ?m, ForecastReq 51 0 ?m]\<rparr>)"
    using t [of "flaky_world (Response 401 example_snapshot)"] a' [of "Response 401 example_snapshot"]
    by (simp add: flaky_fallback)
  from 1 2 3 4 5 show ?thesis by (intro conjI)
qed

text \<open>
  A 204 answer is a success status, yet its body is not returned: the guard is
  \<^verbatim>\<open>r.status_code == 200\<close>, so the fallback endpoints are contacted.
\<close>

theorem fetch_onecall_204_counterexample:
  "success_status 204 \<and>
   onecall_reply (example_world (Response 204 example_snapshot))
     (requests_log (example_world (Response 204 example_snapshot))) 51 0 (u ''metric'') =
     Response 204 example_snapshot \<and>
   fst (fetch_onecall (example_world (Response 204 example_snapshot)) 51 0 (u ''metric'')) \<noteq>
     Inr example_snapshot \<and>
   requests_log (snd (fetch_onecall (example_world (Response 204 example_snapshot)) 51 0 (u ''metric''))) =
     [OneCallReq 51 0 (u ''metric''), WeatherReq 51 0 (u ''metric''), ForecastReq 51 0 (u ''metric'')]"
proof -
  let ?m = "u ''metric''"
  have "onecall_try (example_world (Response 204 example_snapshot)) 51 0 ?m =
     fetch_weather_and_forecast (log_request (OneCallReq 51 0 ?m) (example_world (Response 204 example_snapshot))) 51 0 ?m"
    by (simp add: onecall_try_def example_world_def Let_def)
  then have "fetch_onecall (example_world (Response 204 example_snapshot)) 51 0 ?m =
     (Inr example_fallback_snapshot,
      (example_world (Response 204 example_snapshot))\<lparr>requests_log :=
         [OneCallReq 51 0 ?m, WeatherReq 51 0 ?m, ForecastReq 51 0 ?m]\<rparr>)"
    by (simp add: fetch_onecall_def example_fallback)
  then show ?thesis
    by (simp add: success_status_def example_world_def example_snapshot_def example_fallback_snapshot_def)
qed

text \<open>
  Claim C8. When the geocoding request is answered (no error status) with an empty list,
  \<^verbatim>\<open>geocode_owm\<close> raises \<open>ValueError\<close> "City not found" with only the geocoding request
  made, and \<^verbatim>\<open>main\<close> prints the single line "Error: City not found": no forecast endpoint
  and no other provider is contacted, whatever the renderer and the keyless path are. With a
  non-empty list the latitude, longitude, name (the query when the match has none) and country
  (empty when the match has none) of the first match are returned.
\<close>

theorem geocode_empty_is_not_found:
  assumes "geo_reply w (requests_log w) city = Response st ms" and "\<not> (400 \<le> st \<and> st < 600)"
  shows "(ms = [] \<longrightarrow>
           geocode_owm w city =
             (Inl (ValueError (u ''City not found'')), log_request (GeoReq city) w) \<and>
           (city \<noteq> [] \<longrightarrow>
              main_try render keyless True w (City city) place_label units =
                ([u ''Error: City not found''], log_request (GeoReq city) w))) \<and>
         (\<forall>m rest lat lon. ms = m # rest \<and> g_lat m = Some lat \<and> g_lon m = Some lon \<longrightarrow>
           geocode_owm w city =
             (Inr (lat, lon, (case g_name m of None \<Rightarrow> city | Some n \<Rightarrow> n),
                   (case g_country m of None \<Rightarrow> [] | Some c \<Rightarrow> c)),
              log_request (GeoReq city) w))"
proof -
  have j: "get_json (geo_reply w (requests_log w) city) = Inr ms"
    using assms by (simp add: get_json_def raise_for_status_def)
  have 1: "geocode_owm w city = (Inl (ValueError (u ''City not found'')), log_request (GeoReq city) w)"
    if "ms = []"
    using that j by (simp add: geocode_owm_def Let_def)
  have 2: "main_try render keyless True w (City city) place_label units =
                ([u ''Error: City not found''], log_request (GeoReq city) w)"
    if "ms = []" "city \<noteq> []"
    using that 1 by (simp add: main_try_def error_line_def u_def)
  have 3: "geocode_owm w city =
             (Inr (lat, lon, (case g_name m of None \<Rightarrow> city | Some n \<Rightarrow> n),
                   (case g_country m of None \<Rightarrow> [] | Some c \<Rightarrow> c)),
              log_request (GeoReq city) w)"
    if "ms = m # rest" "g_lat m = Some lat" "g_lon m = Some lon" for m rest lat lon
    using that j by (simp add: geocode_owm_def Let_def)
  from 1 2 3 show ?thesis by blast
qed

theorem geocode_empty_is_not_found_witness:
  "main_try no_render no_keyless True (example_geo_world []) (City (u ''Atlantis'')) (u ''Atlantis'') (u ''metric'') =
     ([u ''Error: City not found''],
      (example_geo_world [])\<lparr>requests_log := [GeoReq (u ''Atlantis'')]\<rparr>) \<and>
   geocode_owm (example_geo_world [example_match]) (u ''london'') =
     (Inr (103 / 2, - 1 / 8, u ''London'', u ''GB''),
      (example_geo_world [example_match])\<lparr>requests_log := [GeoReq (u ''london'')]\<rparr>)"
proof -
  have l: "log_request (GeoReq c) (example_geo_world ms) = (example_geo_world ms)\<lparr>requests_log := [GeoReq c]\<rparr>" for c ms
    by (simp add: log_request_def example_geo_world_def)
  have r: "geo_reply (example_geo_world ms) (requests_log (example_geo_world ms)) c = Response 200 ms" for ms c
    by (simp add: example_geo_world_def)
  have st: "\<not> (400 \<le> (200::int) \<and> (200::int) < 600)" by simp
  have ne: "u ''Atlantis'' \<noteq> []" by (simp add: u_def)
  have 1: "main_try no_render no_keyless True (example_geo_world []) (City (u ''Atlantis'')) (u ''Atlantis'') (u ''metric'') =
     ([u ''Error: City not found''], (example_geo_world [])\<lparr>requests_log := [GeoReq (u ''Atlantis'')]\<rparr>)"
    using geocode_empty_is_not_found [OF r st, of "[]" "u ''Atlantis''" no_render no_keyless "u ''Atlantis''" "u ''metric''"] ne l
    by simp
  have 2: "geocode_owm (example_geo_world [example_match]) (u ''london'') =
     (Inr (103 / 2, - 1 / 8, u ''London'', u ''GB''),
      (example_geo_world [example_match])\<lparr>requests_log := [GeoReq (u ''london'')]\<rparr>)"
    using geocode_empty_is_not_found [OF r st, of "[example_match]" "u ''london''"] l
    by (simp add: example_match_def)
  from 1 2 show ?thesis by (rule conjI)
qed

section \<open>The current conditions in the two renderers\<close>

text \<open>With the keys absent the defaults are shown: 0 for the temperatures and the wind, a dash for the humidity.\<close>

lemma digits_0: "digits 0 = [48]"
  by (simp add: digits.simps)

lemma str_int_0: "str_int 0 = u ''0''"
  by (simp add: str_int_def digits_0 u_def)

lemma round_half_even_0: "round_half_even 0 = 0"
  by (simp add: round_half_even_def)

lemma absent_keys_render_defaults:
  assumes "cur_temp cur = Absent" "cur_feels_like cur = Absent"
    "cur_humidity cur = Absent" "cur_wind_speed cur = Absent"
  shows "temp_line cur units =
           Inr (u ''Temp: 0'' @ unit_sym units @ u ''  Feels: 0'' @ unit_sym units)"
    and "humidity_wind_line cur units =
           Inr (u ''Humidity: '' @ [0x2014] @ u ''%  Wind: 0 '' @ speed_sym units)"
    and "rich_temp_cell cur units =
           Inr (u ''0'' @ unit_sym units @ u '' (feels 0'' @ unit_sym units @ u '')'')"
    and "rich_humidity_cell cur = [0x2014] @ u ''%''"
    and "rich_wind_cell cur units = Inr (u ''0 '' @ speed_sym units)"
  using assms
  by (simp_all add: temp_line_def humidity_wind_line_def rich_temp_cell_def rich_humidity_cell_def
      rich_wind_cell_def dict_get_def py_round_def round_half_even_0 str_int_0 humidity_text_def u_def)

lemma unit_symbols:
  "unit_sym (u ''metric'') = [0xB0] @ u ''C''" "speed_sym (u ''metric'') = u ''m/s''"
  "unit_sym (u ''imperial'') = [0xB0] @ u ''F''" "speed_sym (u ''imperial'') = u ''mph''"
  by (simp_all add: unit_sym_def speed_sym_def u_def)

text \<open>
  A snapshot whose \<^verbatim>\<open>"current"\<close> object has only the timestamp: both renderers run through
  the current conditions and show the defaults.
\<close>

lemma absent_snapshot_renders_defaults:
  "render_owm_head lib now absent_snapshot place_label (u ''imperial'') =
     (print_banner @
      [u ''Location: '' @ place_label,
       u ''Time: '' @ strftime_minute lib 1700028000,
       [],
       u '' '' @ capitalize lib [],
       u ''Temp: 0'' @ [0xB0] @ u ''F  Feels: 0'' @ [0xB0] @ u ''F'',
       u ''Humidity: '' @ [0x2014] @ u ''%  Wind: 0 mph''], None)"
  "render_rich_owm_head lib now absent_snapshot place_label (u ''imperial'') =
     ([place_label @ u ''  '' @ strftime_minute lib 1700028000],
      [(u ''Condition'', u '' '' @ capitalize lib []),
       (u ''Temp'', u ''0'' @ [0xB0] @ u ''F (feels 0'' @ [0xB0] @ u ''F)''),
       (u ''Humidity'', [0x2014] @ u ''%''),
       (u ''Wind'', u ''0 mph'')], None)"
proof -
  have a: "cur_temp absent_current = Absent" "cur_feels_like absent_current = Absent"
    "cur_humidity absent_current = Absent" "cur_wind_speed absent_current = Absent"
    "cur_weather absent_current = Absent" "cur_dt absent_current = Val 1700028000"
    by (simp_all add: absent_current_def)
  have c: "condition_text lib ICON_spark empty_wx = u '' '' @ capitalize lib []"
    "condition_text lib ICON_rich empty_wx = u '' '' @ capitalize lib []"
    by (simp_all add: condition_text_def empty_wx_def ICON_spark_def ICON_rich_def u_def)
  have d: "utc_date 1700028000 = Inr 19676"
    by (simp add: utc_date_def)
  show "render_owm_head lib now absent_snapshot place_label (u ''imperial'') =
     (print_banner @
      [u ''Location: '' @ place_label,
       u ''Time: '' @ strftime_minute lib 1700028000,
       [],
       u '' '' @ capitalize lib [],
       u ''Temp: 0'' @ [0xB0] @ u ''F  Feels: 0'' @ [0xB0] @ u ''F'',
       u ''Humidity: '' @ [0x2014] @ u ''%  Wind: 0 mph''], None)"
    by (simp add: render_owm_head_def absent_snapshot_def a c d head_weather_def dict_get_def
        human_time_spark_def absent_keys_render_defaults [OF a(1-4)] unit_sym_def speed_sym_def u_def)
  show "render_rich_owm_head lib now absent_snapshot place_label (u ''imperial'') =
     ([place_label @ u ''  '' @ strftime_minute lib 1700028000],
      [(u ''Condition'', u '' '' @ capitalize lib []),
       (u ''Temp'', u ''0'' @ [0xB0] @ u ''F (feels 0'' @ [0xB0] @ u ''F)''),
       (u ''Humidity'', [0x2014] @ u ''%''),
       (u ''Wind'', u ''0 mph'')], None)"
    by (simp add: render_rich_owm_head_def absent_snapshot_def a c d head_weather_def dict_get_def
        human_time_rich_def absent_keys_render_defaults [OF a(1-4)] unit_sym_def speed_sym_def u_def)
qed

text \<open>
  A humidity that the normalizer wrote as \<^verbatim>\<open>None\<close> is printed as the text \<^verbatim>\<open>None\<close>, not as the
  dash.
\<close>

lemma null_humidity_prints_None:
  "(case normalize_fallback 1700028000 example_cur_no_humidity [] of
      Inl e \<Rightarrow> None
    | Inr s \<Rightarrow> Some (cur_humidity (s_current s), rich_humidity_cell (s_current s))) =
   Some (Null, u ''None%'')"
  by (simp add: normalize_fallback_def build_hourly_def build_daily_def example_cur_no_humidity_def
      example_cur_def to_field_def rich_humidity_cell_def humidity_text_def u_def Let_def)

text \<open>
  A \<^verbatim>\<open>/weather\<close> response without a \<^verbatim>\<open>"weather"\<close> list: the normalizer writes the empty
  list, and \<^verbatim>\<open>cur.get("weather",[{}])[0]\<close> raises \<open>IndexError\<close> before either renderer has
  printed anything.
\<close>

lemma empty_weather_stops_renderer:
  "(case normalize_fallback 1700028000 example_cur_no_weather [] of
      Inl e \<Rightarrow> None
    | Inr s \<Rightarrow> Some (cur_weather (s_current s),
                     render_owm_head lib 1700028000 s (u ''London, GB'') (u ''metric''),
                     render_rich_owm_head lib 1700028000 s (u ''London, GB'') (u ''metric''))) =
   Some (Val [],
         ([], Some (IndexError (u ''list index out of range''))),
         ([], [], Some (IndexError (u ''list index out of range''))))"
  by (simp add: normalize_fallback_def build_hourly_def build_daily_def example_cur_no_weather_def
      example_cur_def to_field_def render_owm_head_def render_rich_owm_head_def head_weather_def
      Let_def)

text \<open>
  Claim C9 at a snapshot of the fallback normalizer. The \<^verbatim>\<open>/weather\<close> response has a
  condition but no temperature, so the normalizer writes \<^verbatim>\<open>"temp": None\<close>; the key is
  present, the default 0 of \<^verbatim>\<open>cur.get('temp',0)\<close> is not used, and \<^verbatim>\<open>round(None)\<close> raises
  \<open>TypeError\<close>. The plain renderer has printed the banner, the location, the time, an empty
  line and the condition; the rich renderer has printed the panel and added the row
  \<^verbatim>\<open>Condition\<close>; neither shows a temperature.
\<close>

theorem null_temperature_stops_renderer:
  "(case normalize_fallback 1700028000 example_cur_no_temp [] of
      Inl e \<Rightarrow> None
    | Inr s \<Rightarrow> Some (cur_temp (s_current s), cur_weather (s_current s),
                     render_owm_head lib 1700028000 s (u ''London, GB'') (u ''metric''),
                     render_rich_owm_head lib 1700028000 s (u ''London, GB'') (u ''metric''))) =
   Some (Null, Val [example_wx],
         (print_banner @
          [u ''Location: London, GB'',
           u ''Time: '' @ strftime_minute lib 1700028000,
           [],
           [0x2601, 0xFE0F] @ u '' '' @ capitalize lib (u ''few clouds'')],
          Some (TypeError (u ''type NoneType doesn't define __round__ method''))),
         ([u ''London, GB  '' @ strftime_minute lib 1700028000],
          [(u ''Condition'', [0x2601, 0xFE0F] @ u '' '' @ capitalize lib (u ''few clouds''))],
          Some (TypeError (u ''type NoneType doesn't define __round__ method''))))"
proof -
  let ?s = "\<lparr>s_current = \<lparr>cur_dt = Val 1700028000, cur_temp = Null, cur_feels_like = Val 5,
         cur_humidity = Val 80, cur_wind_speed = Val 3, cur_weather = Val [example_wx]\<rparr>,
      s_hourly = [], s_daily = [], s_timezone_offset = 0\<rparr>"
  have n: "normalize_fallback 1700028000 example_cur_no_temp [] = Inr ?s"
    by (simp add: normalize_fallback_def build_hourly_def build_daily_def example_cur_no_temp_def
        example_cur_def to_field_def Let_def)
  have d: "utc_date 1700028000 = Inr 19676"
    by (simp add: utc_date_def)
  have c1: "condition_text lib ICON_spark example_wx = [0x2601, 0xFE0F] @ u '' '' @ capitalize lib (u ''few clouds'')"
    by (simp add: condition_text_def example_wx_def ICON_spark_def u_def)
  have c2: "condition_text lib ICON_rich example_wx = [0x2601, 0xFE0F] @ u '' '' @ capitalize lib (u ''few clouds'')"
    by (simp add: condition_text_def example_wx_def ICON_rich_def u_def)
  have 1: "render_owm_head lib 1700028000 ?s (u ''London, GB'') (u ''metric'') =
         (print_banner @
          [u ''Location: London, GB'',
           u ''Time: '' @ strftime_minute lib 1700028000,
           [],
           [0x2601, 0xFE0F] @ u '' '' @ capitalize lib (u ''few clouds'')],
          Some (TypeError (u ''type NoneType doesn't define __round__ method'')))"
    by (simp add: render_owm_head_def head_weather_def human_time_spark_def dict_get_def d c1
        temp_line_def py_round_def u_def)
  have 2: "render_rich_owm_head lib 1700028000 ?s (u ''London, GB'') (u ''metric'') =
         ([u ''London, GB  '' @ strftime_minute lib 1700028000],
          [(u ''Condition'', [0x2601, 0xFE0F] @ u '' '' @ capitalize lib (u ''few clouds''))],
          Some (TypeError (u ''type NoneType doesn't define __round__ method'')))"
    by (simp add: render_rich_owm_head_def head_weather_def human_time_rich_def dict_get_def d c2
        rich_temp_cell_def py_round_def u_def)
  show ?thesis
    unfolding n using 1 2 by simp
qed


section \<open>Rounding to the nearest integer\<close>

lemma rhe_cases:
  "round_half_even x = \<lfloor>x\<rfloor> \<or> round_half_even x = \<lfloor>x\<rfloor> + 1"
  by (simp add: round_half_even_def Let_def)

lemma rhe_of_int [simp]: "round_half_even (of_int k) = k"
  by (simp add: round_half_even_def)

lemma rhe_lower: "x - 1 / 2 \<le> of_int (round_half_even x)"
proof -
  have "x - of_int \<lfloor>x\<rfloor> < 1" by linarith
  then show ?thesis
    by (auto simp: round_half_even_def Let_def; linarith)
qed

lemma rhe_upper: "of_int (round_half_even x) \<le> x + 1 / 2"
proof -
  have "of_int \<lfloor>x\<rfloor> \<le> x" by simp
  then show ?thesis
    by (auto simp: round_half_even_def Let_def; linarith)
qed

lemma rhe_mono:
  assumes "x \<le> y"
  shows "round_half_even x \<le> round_half_even y"
proof (cases "\<lfloor>x\<rfloor> = \<lfloor>y\<rfloor>")
  case True
  then have "x - of_int \<lfloor>x\<rfloor> \<le> y - of_int \<lfloor>y\<rfloor>"
    using assms by simp
  then show ?thesis
    using True by (auto simp: round_half_even_def Let_def)
next
  case False
  with assms have "\<lfloor>x\<rfloor> < \<lfloor>y\<rfloor>"
    using floor_mono [OF assms] by linarith
  moreover have "round_half_even x \<le> \<lfloor>x\<rfloor> + 1"
    using rhe_cases [of x] by auto
  moreover have "\<lfloor>y\<rfloor> \<le> round_half_even y"
    using rhe_cases [of y] by auto
  ultimately show ?thesis by linarith
qed

lemma rhe_nonneg: "0 \<le> x \<Longrightarrow> 0 \<le> round_half_even x"
  using rhe_mono [of 0 x] rhe_of_int [of 0] by simp

section \<open>The binary exponent\<close>

lemma bitlen_powi_bounds:
  assumes "0 < p"
  shows "2 powi (bitlen p - 1) \<le> (of_int p :: rat)" and "(of_int p :: rat) < 2 powi (bitlen p)"
proof -
  from assms have b: "1 \<le> bitlen p" by (auto simp: bitlen_alt_def)
  from bitlen_bounds [OF assms] have lo: "2 ^ nat (bitlen p - 1) \<le> p" and hi: "p < 2 ^ nat (bitlen p)"
    by auto
  have "(2::rat) powi (bitlen p - 1) = 2 ^ nat (bitlen p - 1)"
    using b by (simp add: power_int_def)
  also have "\<dots> = of_int (2 ^ nat (bitlen p - 1))" by simp
  also have "\<dots> \<le> of_int p" using lo by (simp only: of_int_le_iff)
  finally show "2 powi (bitlen p - 1) \<le> (of_int p :: rat)" .
  have "(of_int p :: rat) < of_int (2 ^ nat (bitlen p))" using hi by (simp only: of_int_less_iff)
  also have "\<dots> = 2 ^ nat (bitlen p)" by simp
  also have "\<dots> = (2::rat) powi (bitlen p)"
    using b by (simp add: power_int_def)
  finally show "(of_int p :: rat) < 2 powi (bitlen p)" .
qed

lemma p2_add: "(2::rat) powi (a + b) = 2 powi a * 2 powi b"
  by (simp add: power_int_add)

lemma p2_diff: "(2::rat) powi (a - b) = 2 powi a / 2 powi b"
  by (simp add: power_int_diff)

lemma p2_pos: "(0::rat) < 2 powi a"
  by simp

lemma ilog2_bounds:
  assumes "0 < x"
  shows "2 powi (ilog2 x) \<le> x" and "x < 2 powi (ilog2 x + 1)"
proof -
  obtain p q where pq: "quotient_of x = (p, q)" by (cases "quotient_of x")
  then have q: "0 < q" by (rule quotient_of_denom_pos)
  from pq have x: "x = of_int p / of_int q" by (rule quotient_of_div)
  with assms q have p: "0 < p" by (simp add: zero_less_divide_iff)
  let ?k = "bitlen p - bitlen q"
  have qr: "(0::rat) < of_int q" using q by simp
  have "x < 2 powi (bitlen p) / 2 powi (bitlen q - 1)"
    unfolding x using bitlen_powi_bounds [OF p] bitlen_powi_bounds [OF q] qr p
    by (intro frac_less) auto
  also have "\<dots> = 2 powi (?k + 1)"
    by (simp add: p2_add p2_diff)
  finally have up: "x < 2 powi (?k + 1)" .
  have "2 powi (?k - 1) = (2::rat) powi (bitlen p - 1) / 2 powi (bitlen q)"
    by (simp add: p2_diff)
  also have "\<dots> \<le> x"
    unfolding x using bitlen_powi_bounds [OF p] bitlen_powi_bounds [OF q] qr p
    by (intro frac_le) auto
  finally have low: "2 powi (?k - 1) \<le> x" .
  have e: "ilog2 x = (if 2 powi ?k \<le> x then ?k else ?k - 1)"
    by (simp add: ilog2_def pq Let_def)
  show "2 powi (ilog2 x) \<le> x"
    using low by (simp add: e)
  show "x < 2 powi (ilog2 x + 1)"
    using up by (auto simp: e)
qed

lemma ilog2_unique:
  assumes "2 powi e \<le> x" and "x < 2 powi (e + 1)"
  shows "ilog2 x = e"
proof -
  have pos: "0 < x"
    using assms(1) zero_less_power_int [of "2::rat" e] by linarith
  note b = ilog2_bounds [OF pos]
  have "\<not> ilog2 x < e"
  proof
    assume "ilog2 x < e"
    then have "(2::rat) powi (ilog2 x + 1) \<le> 2 powi e"
      by (intro power_int_increasing) auto
    with b(2) assms(1) show False by linarith
  qed
  moreover have "\<not> e < ilog2 x"
  proof
    assume "e < ilog2 x"
    then have "(2::rat) powi (e + 1) \<le> 2 powi (ilog2 x)"
      by (intro power_int_increasing) auto
    with b(1) assms(2) show False by linarith
  qed
  ultimately show ?thesis by linarith
qed

lemma ilog2_mono:
  assumes "0 < x" and "x \<le> y"
  shows "ilog2 x \<le> ilog2 y"
proof (rule ccontr)
  assume "\<not> ilog2 x \<le> ilog2 y"
  then have "(2::rat) powi (ilog2 y + 1) \<le> 2 powi (ilog2 x)"
    by (intro power_int_increasing) auto
  moreover from assms have "0 < y" by linarith
  ultimately show False
    using ilog2_bounds(1) [OF assms(1)] ilog2_bounds(2) [OF \<open>0 < y\<close>] assms(2) by linarith
qed


section \<open>Rounding a positive rational to the binary64 grid\<close>

lemma spacing_expo: "spacing x = 2 powi (expo x - 52)"
  by (simp add: spacing_def)

lemma spacing_pos: "0 < spacing x"
  by (simp add: spacing_def)

lemma p2_of_int: "0 \<le> k \<Longrightarrow> (2::rat) powi k = of_int (2 ^ nat k)"
  by (simp add: power_int_def)

lemma expo_mono: "0 < x \<Longrightarrow> x \<le> y \<Longrightarrow> expo x \<le> expo y"
  using ilog2_mono [of x y] by (simp add: expo_def)

lemma round_pos_le_p2:
  assumes "x \<le> 2 powi e" and "expo x \<le> e"
  shows "round_pos x \<le> 2 powi e"
proof -
  let ?q = "spacing x"
  have k: "0 \<le> e - expo x + 52" using assms(2) by simp
  have "x / ?q \<le> 2 powi e / ?q"
    using assms(1) spacing_pos [of x] by (simp add: divide_right_mono)
  also have "2 powi e / ?q = 2 powi (e - expo x + 52)"
    by (simp add: spacing_expo p2_diff p2_add)
  also have "\<dots> = of_int (2 ^ nat (e - expo x + 52))"
    using k by (rule p2_of_int)
  finally have "round_half_even (x / ?q) \<le> round_half_even (of_int (2 ^ nat (e - expo x + 52)))"
    by (rule rhe_mono)
  then have "round_half_even (x / ?q) \<le> 2 ^ nat (e - expo x + 52)"
    by (simp only: rhe_of_int)
  then have "(of_int (round_half_even (x / ?q)) :: rat) \<le> of_int (2 ^ nat (e - expo x + 52))"
    by (simp only: of_int_le_iff)
  also have "\<dots> = 2 powi (e - expo x + 52)"
    using k by (simp only: p2_of_int)
  finally have "round_pos x \<le> 2 powi (e - expo x + 52) * ?q"
    unfolding round_pos_def using spacing_pos [of x] by (simp add: mult_right_mono)
  also have "\<dots> = 2 powi e"
    by (simp add: spacing_expo p2_diff p2_add)
  finally show ?thesis .
qed

lemma round_pos_ge_p2:
  assumes "2 powi e \<le> x" and "expo x \<le> e + 52"
  shows "2 powi e \<le> round_pos x"
proof -
  let ?q = "spacing x"
  have k: "0 \<le> e - expo x + 52" using assms(2) by simp
  have "2 powi e / ?q \<le> x / ?q"
    using assms(1) spacing_pos [of x] by (simp add: divide_right_mono)
  moreover have "2 powi e / ?q = 2 powi (e - expo x + 52)"
    by (simp add: spacing_expo p2_diff p2_add)
  moreover have "2 powi (e - expo x + 52) = (of_int (2 ^ nat (e - expo x + 52)) :: rat)"
    using k by (rule p2_of_int)
  ultimately have "(of_int (2 ^ nat (e - expo x + 52)) :: rat) \<le> x / ?q" by simp
  then have "round_half_even (of_int (2 ^ nat (e - expo x + 52))) \<le> round_half_even (x / ?q)"
    by (rule rhe_mono)
  then have "2 ^ nat (e - expo x + 52) \<le> round_half_even (x / ?q)"
    by (simp only: rhe_of_int)
  then have "(of_int (2 ^ nat (e - expo x + 52)) :: rat) \<le> of_int (round_half_even (x / ?q))"
    by (simp only: of_int_le_iff)
  then have "2 powi (e - expo x + 52) \<le> (of_int (round_half_even (x / ?q)) :: rat)"
    using k by (simp only: p2_of_int)
  then have "2 powi (e - expo x + 52) * ?q \<le> round_pos x"
    unfolding round_pos_def using spacing_pos [of x] by (simp add: mult_right_mono)
  moreover have "2 powi (e - expo x + 52) * ?q = 2 powi e"
    by (simp add: spacing_expo p2_diff p2_add)
  ultimately show ?thesis by simp
qed

lemma round_pos_mono:
  assumes "0 < x" and "x \<le> y"
  shows "round_pos x \<le> round_pos y"
proof (cases "expo x = expo y")
  case True
  then have q: "spacing x = spacing y" by (simp add: spacing_expo)
  have "x / spacing y \<le> y / spacing y"
    using assms(2) spacing_pos [of y] by (simp add: divide_right_mono)
  then have "round_half_even (x / spacing y) \<le> round_half_even (y / spacing y)"
    by (rule rhe_mono)
  then show ?thesis
    unfolding round_pos_def q using spacing_pos [of y] by (simp add: mult_right_mono)
next
  case False
  with expo_mono [OF assms] have lt: "expo x < expo y" by simp
  from assms have ypos: "0 < y" by linarith
  have "- 1022 \<le> expo x" by (simp add: expo_def)
  with lt have ey: "expo y = ilog2 y" by (simp add: expo_def max_def split: if_splits)
  then have "2 powi (expo y) \<le> y"
    using ilog2_bounds(1) [OF ypos] by simp
  then have 1: "2 powi (expo y) \<le> round_pos y"
    by (rule round_pos_ge_p2) simp
  have "ilog2 x + 1 \<le> expo y"
    using lt by (simp add: expo_def)
  then have "(2::rat) powi (ilog2 x + 1) \<le> 2 powi (expo y)"
    by (intro power_int_increasing) auto
  with ilog2_bounds(2) [OF assms(1)] have "x \<le> 2 powi (expo y)" by linarith
  then have 2: "round_pos x \<le> 2 powi (expo y)"
    using lt by (intro round_pos_le_p2) auto
  from 1 2 show ?thesis by linarith
qed

lemma round_pos_nonneg: "0 \<le> x \<Longrightarrow> 0 \<le> round_pos x"
  unfolding round_pos_def using spacing_pos [of x]
  by (intro mult_nonneg_nonneg) (simp_all add: rhe_nonneg)

text \<open>A value with at most 53 significant bits, on the grid of the subnormals or above, is kept.\<close>

lemma round_pos_exact:
  assumes x: "x = of_int m * 2 powi k" and m: "0 < m" "m < 2 ^ 53" and k: "- 1074 \<le> k"
  shows "round_pos x = x"
proof -
  have xpos: "0 < x" using x m by simp
  have "(of_int m :: rat) < of_int (2 ^ 53)" using m(2) by (simp only: of_int_less_iff)
  then have "x < 2 powi 53 * 2 powi k"
    unfolding x by (simp add: mult_strict_right_mono)
  then have "x < 2 powi (k + 53)" by (simp add: p2_add mult.commute)
  have "ilog2 x < k + 53"
  proof (rule ccontr)
    assume "\<not> ilog2 x < k + 53"
    then have "(2::rat) powi (k + 53) \<le> 2 powi (ilog2 x)"
      by (intro power_int_increasing) auto
    with ilog2_bounds(1) [OF xpos] \<open>x < 2 powi (k + 53)\<close> show False by linarith
  qed
  with k have e: "expo x - 52 \<le> k" by (simp add: expo_def)
  then have j: "0 \<le> k - (expo x - 52)" by simp
  have "x / spacing x = of_int m * 2 powi (k - (expo x - 52))"
    unfolding x spacing_expo by (simp add: p2_diff)
  also have "\<dots> = of_int (m * 2 ^ nat (k - (expo x - 52)))"
    using j by (simp add: p2_of_int)
  finally have "x / spacing x = of_int (m * 2 ^ nat (k - (expo x - 52)))" .
  then have "of_int (round_half_even (x / spacing x)) = x / spacing x"
    by (simp only: rhe_of_int)
  then show ?thesis
    unfolding round_pos_def using spacing_pos [of x] by simp
qed

lemma round_pos_upper: "round_pos x \<le> x + spacing x / 2"
proof -
  have "of_int (round_half_even (x / spacing x)) \<le> x / spacing x + 1 / 2"
    by (rule rhe_upper)
  then have "round_pos x \<le> (x / spacing x + 1 / 2) * spacing x"
    unfolding round_pos_def using spacing_pos [of x] by (simp only: mult_right_mono less_imp_le)
  also have "\<dots> = x + spacing x / 2"
    using spacing_pos [of x] by (simp add: field_simps)
  finally show ?thesis .
qed

lemma round_pos_lower: "x - spacing x / 2 \<le> round_pos x"
proof -
  have "x / spacing x - 1 / 2 \<le> of_int (round_half_even (x / spacing x))"
    by (rule rhe_lower)
  then have "(x / spacing x - 1 / 2) * spacing x \<le> round_pos x"
    unfolding round_pos_def using spacing_pos [of x] by (simp only: mult_right_mono less_imp_le)
  moreover have "(x / spacing x - 1 / 2) * spacing x = x - spacing x / 2"
    using spacing_pos [of x] by (simp add: field_simps)
  ultimately show ?thesis by simp
qed

text \<open>In the normal range the spacing is at most \<open>2 ^ - 52\<close> of the value.\<close>

lemma spacing_normal:
  assumes "2 powi (- 1022) \<le> x"
  shows "spacing x \<le> x * 2 powi (- 52)"
proof -
  have xpos: "0 < x" using assms p2_pos [of "- 1022"] by linarith
  have "\<not> ilog2 x < - 1022"
  proof
    assume "ilog2 x < - 1022"
    then have "(2::rat) powi (ilog2 x + 1) \<le> 2 powi (- 1022)"
      by (intro power_int_increasing) auto
    with ilog2_bounds(2) [OF xpos] assms show False by linarith
  qed
  then have "expo x = ilog2 x" by (simp add: expo_def)
  then have "spacing x = 2 powi (ilog2 x) * 2 powi (- 52)"
    by (simp add: spacing_expo p2_diff power_int_minus_divide)
  also have "\<dots> \<le> x * 2 powi (- 52)"
    using ilog2_bounds(1) [OF xpos] by (intro mult_right_mono) auto
  finally show ?thesis .
qed


section \<open>Rounding to binary64\<close>

lemma round_pos_0 [simp]: "round_pos 0 = 0"
  using rhe_of_int [of 0] by (simp add: round_pos_def)

lemma fl_nonneg:
  "0 \<le> x \<Longrightarrow> fl x = (if 2 powi 1024 \<le> round_pos x then PInf else Fin (round_pos x))"
  by (cases "x = 0") (simp_all add: fl_def)

lemma round_pos_mono0:
  assumes "0 \<le> x" and "x \<le> y"
  shows "round_pos x \<le> round_pos y"
proof (cases "x = 0")
  case True
  with assms show ?thesis by (simp add: round_pos_nonneg)
next
  case False
  with assms have "0 < x" by simp
  then show ?thesis using assms(2) by (rule round_pos_mono)
qed

lemma fl_fin_le:
  assumes "0 \<le> x" and "x \<le> y" and "fl y = Fin b"
  shows "\<exists>a. fl x = Fin a \<and> 0 \<le> a \<and> a \<le> b"
proof -
  from assms have y: "0 \<le> y" by linarith
  from assms(3) have b: "b = round_pos y" and nb: "\<not> 2 powi 1024 \<le> round_pos y"
    by (auto simp: fl_nonneg [OF y] split: if_splits)
  have le: "round_pos x \<le> round_pos y"
    using assms(1,2) by (rule round_pos_mono0)
  with nb have "\<not> 2 powi 1024 \<le> round_pos x" by linarith
  then have "fl x = Fin (round_pos x)"
    by (simp add: fl_nonneg [OF assms(1)])
  with le b round_pos_nonneg [OF assms(1)] show ?thesis by simp
qed

lemma fl_exact_pos:
  assumes "x = of_int m * 2 powi k" and "0 \<le> m" and "m < 2 ^ 53" and "- 1074 \<le> k"
    and "x < 2 powi 1024"
  shows "fl x = Fin x"
proof (cases "m = 0")
  case True
  with assms(1) show ?thesis by (simp add: fl_def)
next
  case False
  with assms(2) have m: "0 < m" by simp
  have r: "round_pos x = x"
    using assms(1) m assms(3,4) by (rule round_pos_exact)
  have "0 \<le> x" using assms(1,2) by simp
  then show ?thesis
    using assms(5) by (simp add: fl_nonneg r)
qed

lemma fl_minus: "fl (- x) = (case fl x of Fin r \<Rightarrow> Fin (- r) | PInf \<Rightarrow> NInf | NInf \<Rightarrow> PInf | NaN \<Rightarrow> NaN)"
  by (simp add: fl_def)

lemma fl_exact:
  assumes "x = of_int m * 2 powi k" and "\<bar>m\<bar> < 2 ^ 53" and "- 1074 \<le> k"
    and "\<bar>x\<bar> < 2 powi 1024"
  shows "fl x = Fin x"
proof (cases "0 \<le> m")
  case True
  then have "0 \<le> x" using assms(1) by simp
  with assms True show ?thesis by (intro fl_exact_pos [of x m k]) auto
next
  case False
  then have "x \<le> 0" using assms(1) by (simp add: mult_le_0_iff)
  have "fl (- x) = Fin (- x)"
    using assms False \<open>x \<le> 0\<close> by (intro fl_exact_pos [of "- x" "- m" k]) auto
  then show ?thesis
    using fl_minus [of "- x"] by (simp split: pyfloat.splits)
qed

lemma p2_1024_big: "(2::rat) ^ 53 \<le> 2 powi 1024"
proof -
  have "(2::rat) powi 53 \<le> 2 powi 1024"
    by (intro power_int_increasing) auto
  then show ?thesis by simp
qed

lemma fl_int: "\<bar>i\<bar> < 2 ^ 53 \<Longrightarrow> fl (of_int i) = Fin (of_int i)"
proof -
  assume a: "\<bar>i\<bar> < 2 ^ 53"
  then have "(of_int \<bar>i\<bar> :: rat) < of_int (2 ^ 53)" by (simp only: of_int_less_iff)
  then have "\<bar>of_int i :: rat\<bar> < 2 powi 1024"
    using p2_1024_big by simp
  with a show ?thesis
    by (intro fl_exact [of _ i 0]) auto
qed

lemma is_double_p2: "- 1074 \<le> k \<Longrightarrow> k \<le> 1023 \<Longrightarrow> is_double (2 powi k)"
proof -
  assume k: "- 1074 \<le> k" "k \<le> 1023"
  then have "(2::rat) powi k < 2 powi 1024"
    by (intro power_int_strict_increasing) auto
  then show ?thesis
    unfolding is_double_def using k by (intro fl_exact [of _ 1 k]) auto
qed

lemma fl_bounded:
  assumes "0 \<le> x" and "x \<le> c" and "is_double c"
  shows "\<exists>a. fl x = Fin a \<and> 0 \<le> a \<and> a \<le> c"
  using fl_fin_le [OF assms(1,2)] assms(3) by (simp add: is_double_def)

text \<open>Every binary64 value is a multiple of the smallest subnormal.\<close>

lemma on_grid_def': "on_grid r \<longleftrightarrow> (\<exists>m. r = of_int m * 2 powi (- 1074))"
proof
  assume "on_grid r"
  then have "r * 2 powi 1074 = of_int \<lfloor>r * 2 powi 1074\<rfloor>"
    by (simp only: on_grid_def)
  then have "r * 2 powi 1074 * 2 powi (- 1074) = of_int \<lfloor>r * 2 powi 1074\<rfloor> * 2 powi (- 1074)"
    by (simp only:)
  moreover have "r * 2 powi 1074 * 2 powi (- 1074) = r"
    by (simp add: power_int_minus_divide)
  ultimately show "\<exists>m. r = of_int m * 2 powi (- 1074)" by metis
next
  assume "\<exists>m. r = of_int m * 2 powi (- 1074)"
  then obtain m where "r = of_int m * 2 powi (- 1074)" by blast
  then have "r * 2 powi 1074 = of_int m"
    by (simp add: power_int_minus_divide)
  then show "on_grid r"
    by (simp only: on_grid_def floor_of_int)
qed

lemma round_pos_on_grid: "on_grid (round_pos x)"
proof -
  have "- 1022 \<le> expo x" by (simp add: expo_def)
  then have k: "0 \<le> expo x - 52 + 1074" by simp
  have "spacing x = 2 powi (expo x - 52 + 1074) * 2 powi (- 1074)"
    by (simp add: spacing_expo p2_add p2_diff power_int_minus_divide)
  also have "2 powi (expo x - 52 + 1074) = (of_int (2 ^ nat (expo x - 52 + 1074)) :: rat)"
    using k by (rule p2_of_int)
  finally have "round_pos x =
      of_int (round_half_even (x / spacing x) * 2 ^ nat (expo x - 52 + 1074)) * 2 powi (- 1074)"
    by (simp add: round_pos_def)
  then show ?thesis unfolding on_grid_def' by blast
qed

lemma is_double_on_grid: "is_double r \<Longrightarrow> on_grid r"
proof -
  assume d: "is_double r"
  show ?thesis
  proof (cases "0 \<le> r")
    case True
    with d have "r = round_pos r"
      by (auto simp: is_double_def fl_nonneg split: if_splits)
    then show ?thesis using round_pos_on_grid [of r] by simp
  next
    case False
    with d have "r = - round_pos (- r)"
      by (auto simp: is_double_def fl_def split: if_splits)
    moreover obtain m where "round_pos (- r) = of_int m * 2 powi (- 1074)"
      using round_pos_on_grid [of "- r"] unfolding on_grid_def' by blast
    ultimately have "r = of_int (- m) * 2 powi (- 1074)" by simp
    then show ?thesis unfolding on_grid_def' by blast
  qed
qed

lemma of_int_on_grid: "on_grid (of_int i)"
proof -
  have "(1::rat) = 2 powi 1074 * 2 powi (- 1074)"
    by (simp add: power_int_minus_divide)
  also have "(2::rat) powi 1074 = of_int (2 ^ 1074)" by simp
  finally have "(of_int i :: rat) = of_int (i * 2 ^ 1074) * 2 powi (- 1074)"
    by simp
  then show ?thesis unfolding on_grid_def' by blast
qed

lemma on_grid_diff: "on_grid x \<Longrightarrow> on_grid y \<Longrightarrow> on_grid (x - y)"
proof -
  assume "on_grid x" "on_grid y"
  then obtain m n where "x = of_int m * 2 powi (- 1074)" "y = of_int n * 2 powi (- 1074)"
    unfolding on_grid_def' by blast
  then have "x - y = of_int (m - n) * 2 powi (- 1074)"
    by (simp add: algebra_simps)
  then show ?thesis unfolding on_grid_def' by blast
qed

lemma round_pos_grid_pos:
  assumes "on_grid x" and "0 < x"
  shows "0 < round_pos x"
proof -
  from assms obtain m where m: "x = of_int m * 2 powi (- 1074)"
    unfolding on_grid_def' by blast
  with assms(2) have "0 < m"
    by (simp add: zero_less_mult_iff)
  then have "(1::rat) \<le> of_int m" by simp
  then have "2 powi (- 1074) \<le> x"
    unfolding m by (simp add: mult_le_cancel_right1)
  then have "round_pos (2 powi (- 1074)) \<le> round_pos x"
    by (intro round_pos_mono) simp_all
  moreover have "round_pos (2 powi (- 1074)) = 2 powi (- 1074)"
    by (rule round_pos_exact [of _ 1 "- 1074"]) simp_all
  moreover have "(0::rat) < 2 powi (- 1074)" by (rule p2_pos)
  ultimately show ?thesis by linarith
qed


section \<open>Numbers of moderate size\<close>

lemma p2_53_le_1022: "(2::rat) ^ 53 \<le> 2 powi 1022"
proof -
  have "(2::rat) powi 53 \<le> 2 powi 1022"
    by (intro power_int_increasing) auto
  then show ?thesis by simp
qed

lemma small_sample_facts:
  assumes "small_sample v"
  shows "to_float v = Inr (Fin (value_of v))" and "is_double (value_of v)"
    and "\<bar>value_of v\<bar> \<le> 2 powi 1022" and "exact v = Fin (value_of v)"
proof -
  show "to_float v = Inr (Fin (value_of v))"
    using assms
    by (auto simp: small_sample_def to_float_def value_of_def fl_int split: number.splits pyfloat.splits)
  show "is_double (value_of v)"
    using assms
    by (auto simp: small_sample_def value_of_def is_double_def fl_int split: number.splits pyfloat.splits)
  show "exact v = Fin (value_of v)"
    using assms
    by (auto simp: small_sample_def value_of_def exact_def split: number.splits pyfloat.splits)
  show "\<bar>value_of v\<bar> \<le> 2 powi 1022"
  proof (cases v)
    case (PyInt i)
    with assms have "\<bar>i\<bar> < 2 ^ 53" by (simp add: small_sample_def)
    then have "(of_int \<bar>i\<bar> :: rat) < of_int (2 ^ 53)" by (simp only: of_int_less_iff)
    then show ?thesis using PyInt p2_53_le_1022 by (simp add: value_of_def)
  next
    case (PyFloat f)
    with assms show ?thesis
      by (auto simp: small_sample_def value_of_def split: pyfloat.splits)
  qed
qed

lemma small_py_lt: "small_sample v \<Longrightarrow> small_sample w \<Longrightarrow> py_lt v w \<longleftrightarrow> value_of v < value_of w"
  by (simp add: py_lt_def small_sample_facts(4))

lemma small_py_eq: "small_sample v \<Longrightarrow> small_sample w \<Longrightarrow> py_eq v w \<longleftrightarrow> value_of v = value_of w"
  by (simp add: py_eq_def small_sample_facts(4))

section \<open>Minimum and maximum\<close>

lemma fold_pick_mem: "fold (\<lambda>y m. if P y m then y else m) xs x \<in> set (x # xs)"
  by (induction xs arbitrary: x) auto

lemma min_numbers_mem: "vals \<noteq> [] \<Longrightarrow> \<exists>lo. min_numbers vals = Inr lo \<and> lo \<in> set vals"
  using fold_pick_mem [of "\<lambda>y m. py_lt y m"] by (cases vals) auto

lemma max_numbers_mem: "vals \<noteq> [] \<Longrightarrow> \<exists>hi. max_numbers vals = Inr hi \<and> hi \<in> set vals"
  using fold_pick_mem [of "\<lambda>y m. py_lt m y"] by (cases vals) auto

lemma fold_min_lower:
  assumes "\<forall>v \<in> set (x # xs). small_sample v"
  shows "value_of (fold (\<lambda>y m. if py_lt y m then y else m) xs x) \<le> value_of x \<and>
         (\<forall>v \<in> set xs. value_of (fold (\<lambda>y m. if py_lt y m then y else m) xs x) \<le> value_of v)"
  using assms
proof (induction xs arbitrary: x)
  case Nil
  then show ?case by simp
next
  case (Cons y ys)
  let ?m = "if py_lt y x then y else x"
  have sm: "\<forall>v \<in> set (?m # ys). small_sample v" using Cons.prems by auto
  have m: "value_of ?m \<le> value_of x" "value_of ?m \<le> value_of y"
    using Cons.prems by (auto simp: small_py_lt)
  from Cons.IH [OF sm] m show ?case
    by auto
qed

lemma fold_max_upper:
  assumes "\<forall>v \<in> set (x # xs). small_sample v"
  shows "value_of x \<le> value_of (fold (\<lambda>y m. if py_lt m y then y else m) xs x) \<and>
         (\<forall>v \<in> set xs. value_of v \<le> value_of (fold (\<lambda>y m. if py_lt m y then y else m) xs x))"
  using assms
proof (induction xs arbitrary: x)
  case Nil
  then show ?case by simp
next
  case (Cons y ys)
  let ?m = "if py_lt x y then y else x"
  have sm: "\<forall>v \<in> set (?m # ys). small_sample v" using Cons.prems by auto
  have m: "value_of x \<le> value_of ?m" "value_of y \<le> value_of ?m"
    using Cons.prems by (auto simp: small_py_lt)
  from Cons.IH [OF sm] m show ?case
    by auto
qed

lemma min_numbers_small:
  assumes "vals \<noteq> []" and "\<forall>v \<in> set vals. small_sample v"
  shows "\<exists>lo. min_numbers vals = Inr lo \<and> lo \<in> set vals \<and> (\<forall>v \<in> set vals. value_of lo \<le> value_of v)"
proof -
  from assms(1) obtain x xs where v: "vals = x # xs" by (cases vals) auto
  from fold_min_lower [of x xs] assms(2) v fold_pick_mem [of "\<lambda>y m. py_lt y m" xs x]
  show ?thesis by auto
qed

lemma max_numbers_small:
  assumes "vals \<noteq> []" and "\<forall>v \<in> set vals. small_sample v"
  shows "\<exists>hi. max_numbers vals = Inr hi \<and> hi \<in> set vals \<and> (\<forall>v \<in> set vals. value_of v \<le> value_of hi)"
proof -
  from assms(1) obtain x xs where v: "vals = x # xs" by (cases vals) auto
  from fold_max_upper [of x xs] assms(2) v fold_pick_mem [of "\<lambda>y m. py_lt m y" xs x]
  show ?thesis by auto
qed


section \<open>The palette index\<close>

lemma is_double_1: "is_double 1"
  using is_double_p2 [of 0] by simp

lemma fl_7: "fl 7 = Fin 7"
  using fl_int [of 7] by simp

lemma bindE_Inr [simp]: "bindE (Inr x) f = f x"
  by (simp add: bindE_def)

lemma bindE_Inl [simp]: "bindE (Inl e) f = Inl e"
  by (simp add: bindE_def)

lemma py_sub_small:
  assumes "small_sample v" and "small_sample w"
  shows "py_sub v w =
     Inr (case (v, w) of (PyInt i, PyInt j) \<Rightarrow> PyInt (i - j)
          | _ \<Rightarrow> PyFloat (fl (value_of v - value_of w)))"
  using small_sample_facts(1) [OF assms(1)] small_sample_facts(1) [OF assms(2)]
  by (cases v; cases w) (simp_all add: py_sub_def)

text \<open>The quotient of the two differences, as \<^verbatim>\<open>/\<close> computes it, lies between 0 and 1.\<close>

lemma quotient_unit:
  assumes sv: "small_sample v" "small_sample lo" "small_sample hi"
    and ord: "value_of lo \<le> value_of v" "value_of v \<le> value_of hi" "value_of lo < value_of hi"
  shows "\<exists>d1 d2 r. py_sub v lo = Inr d1 \<and> py_sub hi lo = Inr d2 \<and>
           py_truediv d1 d2 = Inr (PyFloat (Fin r)) \<and> 0 \<le> r \<and> r \<le> 1"
proof -
  let ?a = "value_of v" and ?b = "value_of lo" and ?c = "value_of hi"
  note fv = small_sample_facts [OF sv(1)]
  note fb = small_sample_facts [OF sv(2)]
  note fc = small_sample_facts [OF sv(3)]
  have "?c - ?b \<le> 2 powi 1022 + 2 powi 1022"
    using fc(3) fb(3) by (simp add: abs_le_iff)
  also have "\<dots> = 2 powi 1023"
    using p2_add [of 1022 1] by simp
  finally have cb: "?c - ?b \<le> 2 powi 1023" .
  have d1023: "is_double (2 powi 1023)" by (rule is_double_p2) simp_all
  from fl_bounded [OF _ cb d1023] ord obtain C where C: "fl (?c - ?b) = Fin C" "0 \<le> C"
    by auto
  from fl_fin_le [OF _ _ C(1), of "?a - ?b"] ord obtain A where A: "fl (?a - ?b) = Fin A" "0 \<le> A" "A \<le> C"
    by auto
  have "on_grid (?c - ?b)"
    using fc(2) fb(2) by (intro on_grid_diff is_double_on_grid)
  then have "0 < round_pos (?c - ?b)"
    using ord by (intro round_pos_grid_pos) simp_all
  moreover have "C = round_pos (?c - ?b)"
    using C(1) ord by (simp add: fl_nonneg split: if_splits)
  ultimately have Cpos: "0 < C" by simp
  have "0 \<le> A / C" "A / C \<le> 1"
    using A Cpos by simp_all
  from fl_bounded [OF this is_double_1] obtain R1 where R1: "fl (A / C) = Fin R1" "0 \<le> R1" "R1 \<le> 1"
    by auto
  have "0 \<le> (?a - ?b) / (?c - ?b)" "(?a - ?b) / (?c - ?b) \<le> 1"
    using ord by simp_all
  from fl_bounded [OF this is_double_1] obtain R0
    where R0: "fl ((?a - ?b) / (?c - ?b)) = Fin R0" "0 \<le> R0" "R0 \<le> 1"
    by auto
  have s1: "py_sub v lo =
     Inr (case (v, lo) of (PyInt i, PyInt j) \<Rightarrow> PyInt (i - j) | _ \<Rightarrow> PyFloat (Fin A))"
    using py_sub_small [OF sv(1,2)] A(1) by (simp split: number.splits)
  have s2: "py_sub hi lo =
     Inr (case (hi, lo) of (PyInt i, PyInt j) \<Rightarrow> PyInt (i - j) | _ \<Rightarrow> PyFloat (Fin C))"
    using py_sub_small [OF sv(3,2)] C(1) by (simp split: number.splits)
  have fA: "fl (of_int (i - j)) = Fin A" if "v = PyInt i" "lo = PyInt j" for i j
    using A(1) that by (simp add: value_of_def)
  have fC: "fl (of_int (i - j)) = Fin C" if "hi = PyInt i" "lo = PyInt j" for i j
    using C(1) that by (simp add: value_of_def)
  have fR: "fl (of_int (i - j) / of_int (k - j)) = Fin R0" "k - j \<noteq> 0"
    if "v = PyInt i" "lo = PyInt j" "hi = PyInt k" for i j k
    using R0(1) ord(3) that by (simp_all add: value_of_def)
  have nz: "C \<noteq> 0" using Cpos by simp
  show ?thesis
  proof (cases lo)
    case (PyFloat f)
    then show ?thesis
      unfolding s1 s2 using R1 nz
      by (cases v; cases hi) (simp_all add: py_truediv_def to_float_def)
  next
    case lo: (PyInt j)
    show ?thesis
    proof (cases v)
      case v: (PyInt i)
      show ?thesis
      proof (cases hi)
        case hi: (PyInt k)
        show ?thesis
          unfolding s1 s2 using fR [OF v lo hi] R0 v lo hi
          by (simp add: py_truediv_def)
      next
        case hi: (PyFloat g)
        show ?thesis
          unfolding s1 s2 using fA [OF v lo] R1 nz v lo hi
          by (simp add: py_truediv_def to_float_def)
      qed
    next
      case v: (PyFloat f)
      show ?thesis
      proof (cases hi)
        case hi: (PyInt k)
        show ?thesis
          unfolding s1 s2 using fC [OF hi lo] R1 nz v lo hi
          by (simp add: py_truediv_def to_float_def)
      next
        case hi: (PyFloat g)
        show ?thesis
          unfolding s1 s2 using R1 nz v lo hi
          by (simp add: py_truediv_def to_float_def)
      qed
    qed
  qed
qed

lemma SPARK_length: "length SPARK = 8"
  by (simp add: SPARK_def)

lemma level_range:
  assumes sv: "small_sample v" "small_sample lo" "small_sample hi"
    and ord: "value_of lo \<le> value_of v" "value_of v \<le> value_of hi" "value_of lo < value_of hi"
  shows "\<exists>k. level v lo hi = Inr k \<and> 0 \<le> k \<and> k \<le> 7"
proof -
  from quotient_unit [OF assms] obtain d1 d2 r
    where q: "py_sub v lo = Inr d1" "py_sub hi lo = Inr d2"
      "py_truediv d1 d2 = Inr (PyFloat (Fin r))" "0 \<le> r" "r \<le> 1"
    by blast
  have d7: "is_double 7" by (simp add: is_double_def fl_7)
  have "0 \<le> r * 7" "r * 7 \<le> 7" using q(4,5) by simp_all
  from fl_bounded [OF this d7] obtain p where p: "fl (r * 7) = Fin p" "0 \<le> p" "p \<le> 7"
    by auto
  have "py_mul (PyFloat (Fin r)) (PyInt 7) = Inr (PyFloat (Fin p))"
    using p(1) fl_7 by (simp add: py_mul_def to_float_def)
  then have "level v lo hi = Inr \<lfloor>p\<rfloor>"
    using q(1,2,3) p(2) by (simp add: level_def SPARK_length py_int_def)
  moreover have "0 \<le> \<lfloor>p\<rfloor>" "\<lfloor>p\<rfloor> \<le> 7"
    using p(2,3) by (simp_all add: floor_le_iff)
  ultimately show ?thesis by blast
qed


section \<open>The fit to the width\<close>

lemma py_index_nth: "0 \<le> k \<Longrightarrow> k < int (length xs) \<Longrightarrow> py_index xs k = Inr (xs ! nat k)"
  by (simp add: py_index_def Let_def)

lemma py_index_last: "xs \<noteq> [] \<Longrightarrow> py_index xs (- 1) = Inr (last xs)"
proof -
  assume ne: "xs \<noteq> []"
  then have len: "1 \<le> int (length xs)" by (cases xs) simp_all
  have "nat (int (length xs) + - 1) = length xs - 1" by simp
  then show ?thesis
    using ne len by (simp add: py_index_def last_conv_nth)
qed

lemma step_bound:
  assumes "0 < W" and "W < n" and "n \<le> 2 ^ 52"
  shows "\<exists>s. py_truediv (PyInt n) (PyInt W) = Inr (PyFloat (Fin s)) \<and> 0 \<le> s \<and>
           s \<le> (of_int n / of_int W) * (1 + 2 powi (- 53))"
proof -
  let ?x = "(of_int n / of_int W) :: rat"
  have Wr: "(0::rat) < of_int W" using assms(1) by simp
  have x1: "1 \<le> ?x" using assms(1,2) by (simp add: le_divide_eq)
  have p0: "(2::rat) powi (- 1022) \<le> 2 powi 0"
    by (intro power_int_increasing) auto
  have norm: "2 powi (- 1022) \<le> ?x"
    by (rule order_trans [OF p0]) (use x1 in simp)
  have "round_pos ?x \<le> ?x + spacing ?x / 2" by (rule round_pos_upper)
  also have "\<dots> \<le> ?x + ?x * 2 powi (- 52) / 2"
    using spacing_normal [OF norm] by simp
  also have "\<dots> = ?x * (1 + 2 powi (- 53))"
    using p2_add [of "- 53" 1] by (simp add: algebra_simps)
  finally have up: "round_pos ?x \<le> ?x * (1 + 2 powi (- 53))" .
  have "(of_int n :: rat) \<le> of_int (2 ^ 52)" using assms(3) by (simp only: of_int_le_iff)
  then have n52: "(of_int n :: rat) \<le> 2 ^ 52" by simp
  have "?x \<le> of_int n" using assms(1,2) by (simp add: divide_le_eq mult_le_cancel_left1)
  with n52 have x52: "?x \<le> 2 ^ 52" by linarith
  have u1: "(2::rat) powi (- 53) \<le> 1"
    using power_int_increasing [of "- 53" 0 "2::rat"] by simp
  have "0 \<le> ?x" using x1 by linarith
  with u1 have "?x * (1 + 2 powi (- 53)) \<le> ?x * 2"
    by (intro mult_left_mono) auto
  with up x52 have "round_pos ?x \<le> 2 ^ 53" by simp
  moreover have "(2::rat) ^ 53 < 2 powi 1024"
    using power_int_strict_increasing [of 53 1024 "2::rat"] by simp
  ultimately have fin: "\<not> 2 powi 1024 \<le> round_pos ?x" by linarith
  have "fl ?x = Fin (round_pos ?x)"
    using \<open>0 \<le> ?x\<close> fin by (simp add: fl_nonneg)
  then have "py_truediv (PyInt n) (PyInt W) = Inr (PyFloat (Fin (round_pos ?x)))"
    using assms(1) by (simp add: py_truediv_def)
  with up round_pos_nonneg [OF \<open>0 \<le> ?x\<close>] show ?thesis by blast
qed

lemma stride_arith:
  fixes N Wr s :: rat
  assumes "1 \<le> Wr" and "Wr + 1 \<le> N" and "N \<le> 2 ^ 52" and "0 \<le> s"
    and "s \<le> (N / Wr) * (1 + 2 powi (- 53))" and "0 \<le> i" and "i \<le> Wr - 1"
  shows "i * s \<le> N - 1 / 2"
proof -
  let ?u = "(2::rat) powi (- 53)"
  let ?X = "(Wr - 1) * (N / Wr)"
  have Wpos: "0 < Wr" using assms(1) by linarith
  have X1: "?X \<le> N - 1"
  proof -
    have "?X = N - N / Wr" using Wpos by (simp add: field_simps)
    moreover have "1 \<le> N / Wr" using Wpos assms(2) by (simp add: le_divide_eq)
    ultimately show ?thesis by linarith
  qed
  have X0: "0 \<le> ?X" using assms(1,2) by simp
  have u: "?u * 2 ^ 52 = 1 / 2"
    using p2_add [of "- 53" 52] by (simp add: power_int_minus_divide)
  have "?X * ?u \<le> N * ?u"
    using X1 by (intro mult_right_mono) auto
  also have "\<dots> \<le> 2 ^ 52 * ?u"
    using assms(3) by (intro mult_right_mono) auto
  also have "\<dots> = 1 / 2" using u by (simp add: mult.commute)
  finally have Xu: "?X * ?u \<le> 1 / 2" .
  have "i * s \<le> (Wr - 1) * s"
    using assms(4,7) by (intro mult_right_mono) auto
  also have "\<dots> \<le> (Wr - 1) * ((N / Wr) * (1 + ?u))"
    using assms(1,5) by (intro mult_left_mono) auto
  also have "\<dots> = ?X + ?X * ?u" by (simp add: algebra_simps)
  also have "\<dots> \<le> N - 1 + 1 / 2" using X1 Xu by linarith
  finally show ?thesis by simp
qed

lemma pick_index:
  assumes W: "0 < W" "W < n" "n \<le> 2 ^ 52" and s: "0 \<le> s" "s \<le> (of_int n / of_int W) * (1 + 2 powi (- 53))"
    and i: "int i < W"
  shows "\<exists>k. bindE (py_mul (PyInt (int i)) (PyFloat (Fin s))) py_int = Inr k \<and> 0 \<le> k \<and> k < n"
proof -
  have "\<bar>int i\<bar> < 2 ^ 53" using W i by simp
  then have fi: "fl (of_int (int i)) = Fin (of_int (int i))" by (rule fl_int)
  have le: "of_int (int i) * s \<le> of_int n - 1 / 2"
  proof (rule stride_arith [of "of_int W" "of_int n" s "of_int (int i)"])
    show "(1::rat) \<le> of_int W" using W(1) by simp
    have "W + 1 \<le> n" using W(2) by simp
    then have "(of_int (W + 1) :: rat) \<le> of_int n" by (simp only: of_int_le_iff)
    then show "(of_int W :: rat) + 1 \<le> of_int n" by simp
    have "(of_int n :: rat) \<le> of_int (2 ^ 52)" using W(3) by (simp only: of_int_le_iff)
    then show "(of_int n :: rat) \<le> 2 ^ 52" by simp
    show "0 \<le> s" by (rule s(1))
    show "s \<le> (of_int n / of_int W) * (1 + 2 powi (- 53))" by (rule s(2))
    show "(0::rat) \<le> of_int (int i)" by simp
    have "int i \<le> W - 1" using i by simp
    then have "(of_int (int i) :: rat) \<le> of_int (W - 1)" by (simp only: of_int_le_iff)
    then show "(of_int (int i) :: rat) \<le> of_int W - 1" by simp
  qed
  have dbl: "is_double (of_int n - 1 / 2)"
  proof -
    have "(of_int n - 1 / 2 :: rat) = of_int (2 * n - 1) * 2 powi (- 1)"
      by (simp add: power_int_minus_divide field_simps)
    moreover have "\<bar>2 * n - 1\<bar> < 2 ^ 53" using W by simp
    moreover have "\<bar>of_int n - 1 / 2 :: rat\<bar> < 2 powi 1024"
    proof -
      have "(of_int n :: rat) \<le> of_int (2 ^ 52)" using W(3) by (simp only: of_int_le_iff)
      moreover have "(2::rat) ^ 52 < 2 powi 1024"
        using power_int_strict_increasing [of 52 1024 "2::rat"] by simp
      moreover have "(1::rat) \<le> of_int n" using W by simp
      ultimately show ?thesis by simp
    qed
    ultimately show ?thesis
      unfolding is_double_def by (intro fl_exact [of _ "2 * n - 1" "- 1"]) simp_all
  qed
  have "0 \<le> of_int (int i) * s" using s(1) by simp
  from fl_bounded [OF this le dbl] obtain t
    where t: "fl (of_int (int i) * s) = Fin t" "0 \<le> t" "t \<le> of_int n - 1 / 2"
    by auto
  have "py_mul (PyInt (int i)) (PyFloat (Fin s)) = Inr (PyFloat (Fin t))"
    using fi t(1) by (simp add: py_mul_def to_float_def)
  then have "bindE (py_mul (PyInt (int i)) (PyFloat (Fin s))) py_int = Inr \<lfloor>t\<rfloor>"
    using t(2) by (simp add: py_int_def)
  moreover have "0 \<le> \<lfloor>t\<rfloor>" using t(2) by simp
  moreover have "\<lfloor>t\<rfloor> < n"
  proof -
    have "t < of_int n" using t(3) by linarith
    then show ?thesis by (simp add: floor_less_iff)
  qed
  ultimately show ?thesis by blast
qed

lemma pick_loop_ok:
  assumes W: "0 < W" "W < int (length values)" "int (length values) \<le> 2 ^ 52"
    and s: "0 \<le> s" "s \<le> (of_int (int (length values)) / of_int W) * (1 + 2 powi (- 53))"
  shows "\<forall>i \<in> set idxs. int i < W \<Longrightarrow>
     \<exists>vals. pick_loop values (PyFloat (Fin s)) idxs = Inr vals \<and> length vals = length idxs \<and>
        set vals \<subseteq> set values"
proof (induction idxs)
  case Nil
  then show ?case by simp
next
  case (Cons i rest)
  then have i: "int i < W" and r: "\<forall>i \<in> set rest. int i < W" by auto
  from pick_index [OF W s i] obtain k
    where k: "bindE (py_mul (PyInt (int i)) (PyFloat (Fin s))) py_int = Inr k" "0 \<le> k"
      "k < int (length values)"
    by blast
  from Cons.IH [OF r] obtain vals
    where vals: "pick_loop values (PyFloat (Fin s)) rest = Inr vals" "length vals = length rest"
      "set vals \<subseteq> set values"
    by blast
  from k(1) obtain p where p: "py_mul (PyInt (int i)) (PyFloat (Fin s)) = Inr p" "py_int p = Inr k"
    by (cases "py_mul (PyInt (int i)) (PyFloat (Fin s))") auto
  have "values ! nat k \<in> set values"
    using k(2,3) by (intro nth_mem) simp
  then show ?case
    using p vals py_index_nth [OF k(2,3)] by simp
qed

lemma resample_ok:
  assumes "values \<noteq> []" and "0 < W" and "int (length values) \<le> 2 ^ 52"
  shows "\<exists>vals. resample values W = Inr vals \<and> length vals = nat W \<and> set vals \<subseteq> set values"
proof (cases "int (length values) > W")
  case True
  from step_bound [OF assms(2) True assms(3)] obtain s
    where s: "py_truediv (PyInt (int (length values))) (PyInt W) = Inr (PyFloat (Fin s))"
      "0 \<le> s" "s \<le> (of_int (int (length values)) / of_int W) * (1 + 2 powi (- 53))"
    by blast
  have "\<forall>i \<in> set [0..<nat W]. int i < W" using assms(2) by auto
  from pick_loop_ok [OF assms(2) True assms(3) s(2,3) this]
  show ?thesis using True s(1) by (simp add: resample_def)
next
  case False
  have "last values \<in> set values" using assms(1) by simp
  then show ?thesis
    using False assms(1,2) py_index_last [OF assms(1)] by (auto simp: resample_def)
qed


section \<open>The glyph loops\<close>

lemma py_index_SPARK: "0 \<le> k \<Longrightarrow> k \<le> 7 \<Longrightarrow> py_index SPARK k = Inr (SPARK ! nat k)"
  by (rule py_index_nth) (simp_all add: SPARK_length)

lemma SPARK_nth_mem: "0 \<le> k \<Longrightarrow> k \<le> 7 \<Longrightarrow> SPARK ! nat k \<in> set SPARK"
  by (rule nth_mem) (simp add: SPARK_length)

lemma flat_glyphs_eq: "flat_glyphs vals = Inr (replicate (length vals) (hd SPARK))"
proof -
  have "py_index SPARK 0 = Inr (hd SPARK)"
    using py_index_SPARK [of 0] by (simp add: SPARK_def)
  then show ?thesis by (induction vals) simp_all
qed

lemma glyph_loops:
  assumes "small_sample lo" and "small_sample hi" and "value_of lo < value_of hi"
  shows "\<forall>v \<in> set vals. small_sample v \<and> value_of lo \<le> value_of v \<and> value_of v \<le> value_of hi \<Longrightarrow>
     \<exists>gs. glyphs_spark vals lo hi out = Inr (out @ gs) \<and> glyphs_rich vals lo hi = Inr gs \<and>
       length gs = length vals \<and> set gs \<subseteq> set SPARK"
proof (induction vals arbitrary: out)
  case Nil
  then show ?case by simp
next
  case (Cons v rest)
  then have v: "small_sample v" "value_of lo \<le> value_of v" "value_of v \<le> value_of hi"
    and r: "\<forall>v \<in> set rest. small_sample v \<and> value_of lo \<le> value_of v \<and> value_of v \<le> value_of hi"
    by auto
  from level_range [OF v(1) assms(1,2) v(2,3) assms(3)] obtain k
    where k: "level v lo hi = Inr k" "0 \<le> k" "k \<le> 7"
    by blast
  have clamp: "max 0 (min (int (length SPARK) - 1) k) = k"
    using k(2,3) by (simp add: SPARK_length)
  from Cons.IH [OF r, of "out @ [SPARK ! nat k]"] obtain gs
    where gs: "glyphs_spark rest lo hi (out @ [SPARK ! nat k]) = Inr ((out @ [SPARK ! nat k]) @ gs)"
      "glyphs_rich rest lo hi = Inr gs" "length gs = length rest" "set gs \<subseteq> set SPARK"
    by blast
  have "glyphs_spark (v # rest) lo hi out = Inr (out @ SPARK ! nat k # gs)"
    using k(1) clamp py_index_SPARK [OF k(2,3)] gs(1) by simp
  moreover have "glyphs_rich (v # rest) lo hi = Inr (SPARK ! nat k # gs)"
    using k(1) py_index_SPARK [OF k(2,3)] gs(2) by simp
  ultimately show ?case
    using gs(3,4) SPARK_nth_mem [OF k(2,3)] by auto
qed

lemma sparkline_small:
  assumes "values \<noteq> []" and "0 < W" and "int (length values) \<le> 2 ^ 52"
    and "\<forall>v \<in> set values. small_sample v"
  shows "\<exists>s. sparkline_spark values W = Inr s \<and> sparkline_rich values W = Inr s \<and>
           length s = nat W \<and> set s \<subseteq> set SPARK"
proof -
  from resample_ok [OF assms(1,2,3)] obtain vals
    where vals: "resample values W = Inr vals" "length vals = nat W" "set vals \<subseteq> set values"
    by blast
  from vals(2) assms(2) have ne: "vals \<noteq> []" by auto
  from vals(3) assms(4) have sm: "\<forall>v \<in> set vals. small_sample v" by auto
  from min_numbers_small [OF ne sm] obtain lo
    where lo: "min_numbers vals = Inr lo" "lo \<in> set vals" "\<forall>v \<in> set vals. value_of lo \<le> value_of v"
    by blast
  from max_numbers_small [OF ne sm] obtain hi
    where hi: "max_numbers vals = Inr hi" "hi \<in> set vals" "\<forall>v \<in> set vals. value_of v \<le> value_of hi"
    by blast
  have slo: "small_sample lo" and shi: "small_sample hi" using lo(2) hi(2) sm by auto
  show ?thesis
  proof (cases "py_eq hi lo")
    case True
    have "set (replicate (length vals) (hd SPARK)) \<subseteq> set SPARK"
      by (auto simp: SPARK_def)
    then show ?thesis
      using assms(1) vals(1,2) lo(1) hi(1) True
      by (simp add: sparkline_spark_def sparkline_rich_def flat_glyphs_eq)
  next
    case False
    then have "value_of hi \<noteq> value_of lo"
      using small_py_eq [OF shi slo] by simp
    moreover have "value_of lo \<le> value_of hi" using lo(3) hi(2) by auto
    ultimately have lt: "value_of lo < value_of hi" by simp
    have "\<forall>v \<in> set vals. small_sample v \<and> value_of lo \<le> value_of v \<and> value_of v \<le> value_of hi"
      using sm lo(3) hi(3) by auto
    from glyph_loops [OF slo shi lt this, of "[]"] obtain gs
      where gs: "glyphs_spark vals lo hi [] = Inr gs" "glyphs_rich vals lo hi = Inr gs"
        "length gs = length vals" "set gs \<subseteq> set SPARK"
      by auto
    show ?thesis
      using assms(1) vals(1,2) lo(1) hi(1) False gs
      by (simp add: sparkline_spark_def sparkline_rich_def)
  qed
qed

lemma sparkline_flat:
  assumes "values \<noteq> []" and "0 < W" and "int (length values) \<le> 2 ^ 52"
    and "\<forall>v \<in> set values. \<forall>w \<in> set values. py_eq v w"
  shows "sparkline_spark values W = Inr (replicate (nat W) (hd SPARK)) \<and>
         sparkline_rich values W = Inr (replicate (nat W) (hd SPARK))"
proof -
  from resample_ok [OF assms(1,2,3)] obtain vals
    where vals: "resample values W = Inr vals" "length vals = nat W" "set vals \<subseteq> set values"
    by blast
  from vals(2) assms(2) have ne: "vals \<noteq> []" by auto
  from min_numbers_mem [OF ne] obtain lo where lo: "min_numbers vals = Inr lo" "lo \<in> set vals"
    by blast
  from max_numbers_mem [OF ne] obtain hi where hi: "max_numbers vals = Inr hi" "hi \<in> set vals"
    by blast
  have "py_eq hi lo" using assms(4) vals(3) lo(2) hi(2) by blast
  then show ?thesis
    using assms(1) vals(1,2) lo(1) hi(1)
    by (simp add: sparkline_spark_def sparkline_rich_def flat_glyphs_eq)
qed


section \<open>Evaluating roundings at concrete numbers\<close>

lemma fl_eval:
  assumes "2 powi e \<le> x" and "x < 2 powi (e + 1)" and "- 1022 \<le> e"
    and "round_half_even (x / 2 powi (e - 52)) = m"
    and "(of_int m :: rat) * 2 powi (e - 52) < 2 powi 1024"
  shows "fl x = Fin (of_int m * 2 powi (e - 52))"
proof -
  have "ilog2 x = e" using assms(1,2) by (rule ilog2_unique)
  then have "spacing x = 2 powi (e - 52)"
    using assms(3) by (simp add: spacing_def expo_def)
  then have r: "round_pos x = of_int m * 2 powi (e - 52)"
    using assms(4) by (simp add: round_pos_def)
  have "0 < x" using assms(1) p2_pos [of e] by linarith
  then show ?thesis
    using assms(5) by (simp add: fl_nonneg r)
qed

lemma floor_rat_numeral [simp]: "\<lfloor>numeral a / numeral b :: rat\<rfloor> = numeral a div numeral b"
  by (metis floor_divide_of_int_eq of_int_numeral)

lemma fl_0: "fl 0 = Fin 0"
  by (simp add: fl_def)

lemma fl_1: "fl 1 = Fin 1"
  using fl_int [of 1] by simp

lemma fl_half: "fl (1 / 2) = Fin (1 / 2)"
  by (rule fl_exact [of _ 1 "- 1"]) simp_all

lemma fl_7_2: "fl (7 / 2) = Fin (7 / 2)"
  by (rule fl_exact [of _ 7 "- 1"]) simp_all

lemmas number_ops = py_sub_def py_mul_def py_truediv_def py_int_def to_float_def py_lt_def
  py_eq_def exact_def py_index_def level_def resample_def sparkline_spark_def sparkline_rich_def
  SPARK_def Let_def

lemma sparkline_10_20_30_levels:
  "level (PyInt 10) (PyInt 10) (PyInt 30) = Inr 0"
  "level (PyInt 20) (PyInt 10) (PyInt 30) = Inr 3"
  "level (PyInt 30) (PyInt 10) (PyInt 30) = Inr 7"
  by (simp_all add: number_ops fl_0 fl_1 fl_half fl_7 fl_7_2)

lemma sparkline_10_20_30_eval:
  "resample [PyInt 10, PyInt 20, PyInt 30] 6 =
     Inr [PyInt 10, PyInt 20, PyInt 30, PyInt 30, PyInt 30, PyInt 30] \<and>
   sparkline_spark [PyInt 10, PyInt 20, PyInt 30] 6 =
     Inr [0x2581, 0x2584, 0x2588, 0x2588, 0x2588, 0x2588] \<and>
   sparkline_rich [PyInt 10, PyInt 20, PyInt 30] 6 =
     Inr [0x2581, 0x2584, 0x2588, 0x2588, 0x2588, 0x2588]"
proof -
  have r: "resample [PyInt 10, PyInt 20, PyInt 30] 6 =
     Inr [PyInt 10, PyInt 20, PyInt 30, PyInt 30, PyInt 30, PyInt 30]"
    by (simp add: resample_def py_index_def numeral_eq_Suc)
  have lo: "min_numbers [PyInt 10, PyInt 20, PyInt 30, PyInt 30, PyInt 30, PyInt 30] = Inr (PyInt 10)"
    by (simp add: py_lt_def exact_def)
  have hi: "max_numbers [PyInt 10, PyInt 20, PyInt 30, PyInt 30, PyInt 30, PyInt 30] = Inr (PyInt 30)"
    by (simp add: py_lt_def exact_def)
  have ne: "\<not> py_eq (PyInt 30) (PyInt 10)"
    by (simp add: py_eq_def exact_def)
  note l10 = sparkline_10_20_30_levels(1)
  note l20 = sparkline_10_20_30_levels(2)
  note l30 = sparkline_10_20_30_levels(3)
  have s: "sparkline_spark [PyInt 10, PyInt 20, PyInt 30] 6 =
     Inr [0x2581, 0x2584, 0x2588, 0x2588, 0x2588, 0x2588]"
    by (simp add: sparkline_spark_def r lo hi ne l10 l20 l30 py_index_def SPARK_def
        del: min_numbers.simps max_numbers.simps)
  have t: "sparkline_rich [PyInt 10, PyInt 20, PyInt 30] 6 =
     Inr [0x2581, 0x2584, 0x2588, 0x2588, 0x2588, 0x2588]"
    by (simp add: sparkline_rich_def r lo hi ne l10 l20 l30 py_index_def SPARK_def
        del: min_numbers.simps max_numbers.simps)
  from r s t show ?thesis by simp
qed


lemma fl_c12: "fl (21617278211378381 / 18014398509481984) = Fin (5404319552844595 / 4503599627370496)"
proof -
  have "fl (21617278211378381 / 18014398509481984) = Fin (of_int 5404319552844595 * 2 powi (0 - 52))"
    by (rule fl_eval) (simp_all add: round_half_even_def power_int_minus_divide)
  then show ?thesis by (simp add: power_int_minus_divide)
qed

lemma fl_q1: "fl (3602879701896397 / 25220157913274776) = Fin (5146971002709139 / 36028797018963968)"
proof -
  have "fl (3602879701896397 / 25220157913274776) = Fin (of_int 5146971002709139 * 2 powi (- 3 - 52))"
    by (rule fl_eval) (simp_all add: round_half_even_def power_int_minus_divide)
  then show ?thesis by (simp add: power_int_minus_divide)
qed

lemma fl_p1: "fl (36028797018963973 / 36028797018963968) = Fin (4503599627370497 / 4503599627370496)"
proof -
  have "fl (36028797018963973 / 36028797018963968) = Fin (of_int 4503599627370497 * 2 powi (0 - 52))"
    by (rule fl_eval) (simp_all add: round_half_even_def power_int_minus_divide)
  then show ?thesis by (simp add: power_int_minus_divide)
qed

lemma fl_q2: "fl (900719925474099 / 6305039478318694) = Fin (5146971002709137 / 36028797018963968)"
proof -
  have "fl (900719925474099 / 6305039478318694) = Fin (of_int 5146971002709137 * 2 powi (- 3 - 52))"
    by (rule fl_eval) (simp_all add: round_half_even_def power_int_minus_divide)
  then show ?thesis by (simp add: power_int_minus_divide)
qed

lemma fl_p2: "fl (36028797018963959 / 36028797018963968) = Fin (4503599627370495 / 4503599627370496)"
proof -
  have "fl (36028797018963959 / 36028797018963968) = Fin (of_int 9007199254740990 * 2 powi (- 1 - 52))"
    by (rule fl_eval) (simp_all add: round_half_even_def power_int_minus_divide)
  then show ?thesis by (simp add: power_int_minus_divide)
qed

lemma fl_big_int: "fl 1152921504606847176 = Fin 1152921504606847232"
proof -
  have "fl 1152921504606847176 = Fin (of_int 4503599627370497 * 2 powi (60 - 52))"
    by (rule fl_eval) (simp_all add: round_half_even_def power_int_minus_divide)
  then show ?thesis by (simp add: power_int_minus_divide)
qed

lemma fl_c01: "fl (3602879701896397 / 36028797018963968) = Fin (3602879701896397 / 36028797018963968)"
  by (rule fl_exact [of _ 3602879701896397 "- 55"]) (simp_all add: power_int_minus_divide)

lemma fl_c07: "fl (3152519739159347 / 4503599627370496) = Fin (3152519739159347 / 4503599627370496)"
  by (rule fl_exact [of _ 3152519739159347 "- 52"]) (simp_all add: power_int_minus_divide)

lemma fl_2c01: "fl (3602879701896397 / 18014398509481984) = Fin (3602879701896397 / 18014398509481984)"
  by (rule fl_exact [of _ 3602879701896397 "- 54"]) (simp_all add: power_int_minus_divide)

lemma fl_2c07: "fl (3152519739159347 / 2251799813685248) = Fin (3152519739159347 / 2251799813685248)"
  by (rule fl_exact [of _ 3152519739159347 "- 51"]) (simp_all add: power_int_minus_divide)

lemma fl_c24: "fl (5404319552844595 / 2251799813685248) = Fin (5404319552844595 / 2251799813685248)"
  by (rule fl_exact [of _ 5404319552844595 "- 51"]) (simp_all add: power_int_minus_divide)

lemma fl_c12_exact: "fl (5404319552844595 / 4503599627370496) = Fin (5404319552844595 / 4503599627370496)"
  by (rule fl_exact [of _ 5404319552844595 "- 52"]) (simp_all add: power_int_minus_divide)

lemma fl_d1: "fl (900719925474099 / 4503599627370496) = Fin (900719925474099 / 4503599627370496)"
  by (rule fl_exact [of _ 900719925474099 "- 52"]) (simp_all add: power_int_minus_divide)

lemma fl_d2: "fl (3152519739159347 / 2251799813685248) = Fin (3152519739159347 / 2251799813685248)"
  by (rule fl_exact [of _ 3152519739159347 "- 51"]) (simp_all add: power_int_minus_divide)

lemma fl_311_256: "fl (311 / 256) = Fin (311 / 256)"
  by (rule fl_exact [of _ 311 "- 8"]) (simp_all add: power_int_minus_divide)

lemma fl_2177_256: "fl (2177 / 256) = Fin (2177 / 256)"
  by (rule fl_exact [of _ 2177 "- 8"]) (simp_all add: power_int_minus_divide)

lemma fl_256: "fl 256 = Fin 256"
  by (rule fl_exact [of _ 1 8]) (simp_all add: power_int_minus_divide)

lemma fl_big_float: "fl 1152921504606847488 = Fin 1152921504606847488"
  by (rule fl_exact [of _ 2251799813685249 9]) (simp_all add: power_int_minus_divide)

lemma fl_2: "fl 2 = Fin 2"
  by (rule fl_exact [of _ 1 1]) (simp_all add: power_int_minus_divide)

lemmas doubles = dbl_0_1_def dbl_0_7_def dbl_1_2_def dbl_2_4_def

lemma example_doubles:
  "is_double dbl_0_1" "is_double dbl_0_7" "is_double dbl_1_2" "is_double dbl_2_4"
  by (simp_all add: is_double_def doubles fl_c01 fl_c07 fl_c12_exact fl_c24)

lemma example_affine:
  "affine (PyFloat (Fin 2)) (PyFloat (Fin 1)) (PyFloat (Fin 0)) = Inr (PyFloat (Fin 1))"
  "affine (PyFloat (Fin 2)) (PyFloat (Fin 1)) (PyFloat (Fin dbl_0_1)) = Inr (PyFloat (Fin dbl_1_2))"
  "affine (PyFloat (Fin 2)) (PyFloat (Fin 1)) (PyFloat (Fin dbl_0_7)) = Inr (PyFloat (Fin dbl_2_4))"
  by (simp_all add: affine_def py_mul_def py_add_def to_float_def doubles fl_0 fl_1 fl_2c01 fl_2c07
      fl_c12 fl_c24)

lemma example_levels_1:
  "level (PyFloat (Fin 0)) (PyFloat (Fin 0)) (PyFloat (Fin dbl_0_7)) = Inr 0"
  "level (PyFloat (Fin dbl_0_1)) (PyFloat (Fin 0)) (PyFloat (Fin dbl_0_7)) = Inr 1"
  "level (PyFloat (Fin dbl_0_7)) (PyFloat (Fin 0)) (PyFloat (Fin dbl_0_7)) = Inr 7"
  by (simp_all add: number_ops doubles fl_0 fl_1 fl_7 fl_c01 fl_c07 fl_q1 fl_p1)

lemma example_levels_2:
  "level (PyFloat (Fin 1)) (PyFloat (Fin 1)) (PyFloat (Fin dbl_2_4)) = Inr 0"
  "level (PyFloat (Fin dbl_1_2)) (PyFloat (Fin 1)) (PyFloat (Fin dbl_2_4)) = Inr 0"
  "level (PyFloat (Fin dbl_2_4)) (PyFloat (Fin 1)) (PyFloat (Fin dbl_2_4)) = Inr 7"
  by (simp_all add: number_ops doubles fl_0 fl_1 fl_7 fl_d1 fl_d2 fl_q2 fl_p2)


section \<open>The claims about the sparkline quantizer\<close>

lemma sparkline_3:
  assumes "min_numbers [a, b, c] = Inr lo" and "max_numbers [a, b, c] = Inr hi"
    and "\<not> py_eq hi lo"
    and "level a lo hi = Inr i" and "level b lo hi = Inr j" and "level c lo hi = Inr k"
    and "0 \<le> i" "i \<le> 7" "0 \<le> j" "j \<le> 7" "0 \<le> k" "k \<le> 7"
  shows "sparkline_spark [a, b, c] 3 = Inr [SPARK ! nat i, SPARK ! nat j, SPARK ! nat k]"
    and "sparkline_rich [a, b, c] 3 = Inr [SPARK ! nat i, SPARK ! nat j, SPARK ! nat k]"
proof -
  have r: "resample [a, b, c] 3 = Inr [a, b, c]"
    by (simp add: resample_def py_index_def)
  have c: "max 0 (min (int (length SPARK) - 1) i) = i" "max 0 (min (int (length SPARK) - 1) j) = j"
    "max 0 (min (int (length SPARK) - 1) k) = k"
    using assms(7-12) by (simp_all add: SPARK_length)
  show "sparkline_spark [a, b, c] 3 = Inr [SPARK ! nat i, SPARK ! nat j, SPARK ! nat k]"
    using assms
    by (simp add: sparkline_spark_def r c py_index_SPARK del: min_numbers.simps max_numbers.simps)
  show "sparkline_rich [a, b, c] 3 = Inr [SPARK ! nat i, SPARK ! nat j, SPARK ! nat k]"
    using assms
    by (simp add: sparkline_rich_def r py_index_SPARK del: min_numbers.simps max_numbers.simps)
qed

lemma SPARK_nth:
  "SPARK ! 0 = 0x2581" "SPARK ! nat 1 = 0x2582" "SPARK ! nat 3 = 0x2584" "SPARK ! nat 7 = 0x2588"
  "hd SPARK = 0x2581"
  by (simp_all add: SPARK_def numeral_eq_Suc)

text \<open>
  Claim C3, as the code has it. The empty sequence gives the empty string. A non-empty
  sequence of at most \<open>2 ^ 52\<close> samples of moderate size (floats of magnitude at most
  \<open>2 ^ 1022\<close>, integers below \<open>2 ^ 53\<close>) and a positive width \<open>W\<close> give, in both variants, a
  string of exactly \<open>W\<close> glyphs of the palette.
\<close>

theorem sparkline_width_and_palette:
  "sparkline_spark [] W = Inr [] \<and> sparkline_rich [] W = Inr [] \<and>
   (values \<noteq> [] \<and> 0 < W \<and> int (length values) \<le> 2 ^ 52 \<and>
    (\<forall>v \<in> set values. small_sample v) \<longrightarrow>
      (\<exists>s. sparkline_spark values W = Inr s \<and> length s = nat W \<and> set s \<subseteq> set SPARK) \<and>
      (\<exists>s. sparkline_rich values W = Inr s \<and> length s = nat W \<and> set s \<subseteq> set SPARK))"
proof -
  have "sparkline_spark [] W = Inr []" "sparkline_rich [] W = Inr []"
    by (simp_all add: sparkline_spark_def sparkline_rich_def)
  moreover have "(\<exists>s. sparkline_spark values W = Inr s \<and> length s = nat W \<and> set s \<subseteq> set SPARK) \<and>
      (\<exists>s. sparkline_rich values W = Inr s \<and> length s = nat W \<and> set s \<subseteq> set SPARK)"
    if "values \<noteq> []" "0 < W" "int (length values) \<le> 2 ^ 52" "\<forall>v \<in> set values. small_sample v"
    using sparkline_small [OF that] by blast
  ultimately show ?thesis by blast
qed

text \<open>Three moderate samples, two floats and an integer, at width 5.\<close>

theorem sparkline_width_and_palette_witness:
  "list_all small_sample [PyFloat (Fin (1 / 2)), PyFloat (Fin (7 / 2)), PyInt 2] \<and>
   (\<exists>s. sparkline_spark [PyFloat (Fin (1 / 2)), PyFloat (Fin (7 / 2)), PyInt 2] 5 = Inr s \<and>
        length s = 5 \<and> set s \<subseteq> set SPARK) \<and>
   (\<exists>s. sparkline_rich [PyFloat (Fin (1 / 2)), PyFloat (Fin (7 / 2)), PyInt 2] 5 = Inr s \<and>
        length s = 5 \<and> set s \<subseteq> set SPARK)"
proof -
  let ?vs = "[PyFloat (Fin (1 / 2)), PyFloat (Fin (7 / 2)), PyInt 2]"
  have "(2::rat) powi 0 \<le> 2 powi 1022" by (intro power_int_increasing) auto
  then have b1: "(1::rat) \<le> 2 powi 1022" by simp
  have "(2::rat) powi 2 \<le> 2 powi 1022" by (intro power_int_increasing) auto
  then have b4: "(4::rat) \<le> 2 powi 1022" by simp
  have h1: "\<bar>1 / 2 :: rat\<bar> \<le> 2 powi 1022" using b1 by simp
  have h2: "\<bar>7 / 2 :: rat\<bar> \<le> 2 powi 1022" using b4 by simp
  have sm: "list_all small_sample ?vs"
    using h1 h2 by (simp add: small_sample_def is_double_def fl_half fl_7_2)
  then have sm': "\<forall>v \<in> set ?vs. small_sample v" by (simp add: list_all_iff)
  have "?vs \<noteq> []" "(0::int) < 5" "int (length ?vs) \<le> 2 ^ 52" by simp_all
  with sparkline_width_and_palette [of 5 ?vs] sm' sm show ?thesis by simp
qed

text \<open>
  Two floats whose difference overflows: \<open>hi - lo\<close> is infinite, the quotient of the first
  sample is \<open>inf / inf\<close>, and \<^verbatim>\<open>int(nan)\<close> raises.
\<close>

theorem sparkline_overflow_counterexample:
  "is_double huge \<and> is_double (- huge) \<and>
   sparkline_spark [PyFloat (Fin huge), PyFloat (Fin (- huge))] 2 =
     Inl (ValueError (u ''cannot convert float NaN to integer'')) \<and>
   sparkline_rich [PyFloat (Fin huge), PyFloat (Fin (- huge))] 2 =
     Inl (ValueError (u ''cannot convert float NaN to integer''))"
proof -
  let ?h = "PyFloat (Fin huge)" and ?l = "PyFloat (Fin (- huge))"
  have d1: "is_double huge" unfolding huge_def by (rule is_double_p2) simp_all
  have d2: "is_double (- huge)"
    using d1 fl_minus [of huge] by (simp add: is_double_def)
  have pos: "0 < huge" unfolding huge_def by (rule p2_pos)
  then have ord: "- huge < huge" "\<not> huge < - huge" "huge \<noteq> - huge" by simp_all
  have "round_pos (2 powi 1024) = 2 powi 1024"
    by (rule round_pos_exact [of _ 1 1024]) simp_all
  then have "fl (2 powi 1024) = PInf" by (simp add: fl_nonneg)
  moreover have "huge + huge = 2 powi 1024"
    unfolding huge_def using p2_add [of 1023 1] by simp
  ultimately have inf: "fl (huge + huge) = PInf" by (simp only:)
  have r: "resample [?h, ?l] 2 = Inr [?h, ?l]"
    by (simp add: resample_def py_index_def)
  have lo: "min_numbers [?h, ?l] = Inr ?l" using ord by (simp add: py_lt_def exact_def)
  have hi: "max_numbers [?h, ?l] = Inr ?h" using ord by (simp add: py_lt_def exact_def)
  have ne: "\<not> py_eq ?h ?l" using ord by (simp add: py_eq_def exact_def)
  have s: "py_sub ?h ?l = Inr (PyFloat PInf)"
    using inf by (simp add: py_sub_def to_float_def)
  have lv: "level ?h ?l ?h = Inl (ValueError (u ''cannot convert float NaN to integer''))"
    by (simp add: level_def s py_truediv_def py_mul_def to_float_def py_int_def fl_7 SPARK_length)
  have 1: "sparkline_spark [?h, ?l] 2 = Inl (ValueError (u ''cannot convert float NaN to integer''))"
    by (simp add: sparkline_spark_def r lo hi ne lv del: min_numbers.simps max_numbers.simps)
  have 2: "sparkline_rich [?h, ?l] 2 = Inl (ValueError (u ''cannot convert float NaN to integer''))"
    by (simp add: sparkline_rich_def r lo hi ne lv del: min_numbers.simps max_numbers.simps)
  from d1 d2 1 2 show ?thesis by (intro conjI)
qed


text \<open>
  Claim C4, as the code has it. The list \<open>[10, 20, 30]\<close> is not longer than the width 6, so it
  is not downsampled but padded on the right with its last sample: the output is one lowest
  glyph, one glyph of level 3 for the middle value, and four highest glyphs.
\<close>

theorem sparkline_10_20_30_pads:
  "resample [PyInt 10, PyInt 20, PyInt 30] 6 =
     Inr [PyInt 10, PyInt 20, PyInt 30, PyInt 30, PyInt 30, PyInt 30] \<and>
   level (PyInt 10) (PyInt 10) (PyInt 30) = Inr 0 \<and>
   level (PyInt 20) (PyInt 10) (PyInt 30) = Inr 3 \<and>
   level (PyInt 30) (PyInt 10) (PyInt 30) = Inr 7 \<and>
   sparkline_spark [PyInt 10, PyInt 20, PyInt 30] 6 =
     Inr [0x2581, 0x2584, 0x2588, 0x2588, 0x2588, 0x2588] \<and>
   sparkline_rich [PyInt 10, PyInt 20, PyInt 30] 6 =
     Inr [0x2581, 0x2584, 0x2588, 0x2588, 0x2588, 0x2588]"
  using sparkline_10_20_30_eval sparkline_10_20_30_levels by simp

text \<open>
  The output is not the one of the stride sample \<open>[10, 10, 20, 20, 30, 30]\<close>, two glyphs for
  each value.
\<close>

theorem sparkline_10_20_30_counterexample:
  "resample [PyInt 10, PyInt 20, PyInt 30] 6 \<noteq>
     Inr [PyInt 10, PyInt 10, PyInt 20, PyInt 20, PyInt 30, PyInt 30] \<and>
   sparkline_spark [PyInt 10, PyInt 20, PyInt 30] 6 \<noteq>
     Inr [0x2581, 0x2581, 0x2584, 0x2584, 0x2588, 0x2588] \<and>
   sparkline_rich [PyInt 10, PyInt 20, PyInt 30] 6 \<noteq>
     Inr [0x2581, 0x2581, 0x2584, 0x2584, 0x2588, 0x2588]"
  using sparkline_10_20_30_eval by simp

text \<open>
  Claim C6, as the code has it. A non-empty sequence (of at most \<open>2 ^ 52\<close> samples) whose
  samples are all equal gives, for every positive width \<open>W\<close>, exactly \<open>W\<close> copies of the first
  glyph of the palette, in both variants.
\<close>

theorem flat_series_lowest_glyph:
  assumes "values \<noteq> []" and "0 < W" and "int (length values) \<le> 2 ^ 52"
    and "\<forall>v \<in> set values. \<forall>w \<in> set values. py_eq v w"
  shows "sparkline_spark values W = Inr (replicate (nat W) (hd SPARK)) \<and>
         sparkline_rich values W = Inr (replicate (nat W) (hd SPARK))"
  using assms by (rule sparkline_flat)

text \<open>The single sample 5 at width 4: four lowest glyphs.\<close>

theorem flat_series_lowest_glyph_witness:
  "sparkline_spark [PyInt 5] 4 = Inr [0x2581, 0x2581, 0x2581, 0x2581] \<and>
   sparkline_rich [PyInt 5] 4 = Inr [0x2581, 0x2581, 0x2581, 0x2581]"
proof -
  have "\<forall>v \<in> set [PyInt 5]. \<forall>w \<in> set [PyInt 5]. py_eq v w"
    by (simp add: py_eq_def exact_def)
  from flat_series_lowest_glyph [OF _ _ _ this, of 4] show ?thesis
    by (simp add: SPARK_nth numeral_eq_Suc)
qed

text \<open>At width 0 the stride \<^verbatim>\<open>len(values) / width\<close> is a division by zero.\<close>

theorem flat_series_width_0_counterexample:
  "sparkline_spark [PyInt 5] 0 = Inl (ZeroDivisionError (u ''division by zero'')) \<and>
   sparkline_rich [PyInt 5] 0 = Inl (ZeroDivisionError (u ''division by zero''))"
  by (simp add: sparkline_spark_def sparkline_rich_def resample_def py_truediv_def)


text \<open>
  Where the two variants agree. For a non-empty sequence of at most \<open>2 ^ 52\<close> samples of
  moderate size (floats of magnitude at most \<open>2 ^ 1022\<close>, integers below \<open>2 ^ 53\<close>) and a
  positive width, both variants return the same string, and whenever the loop computes a
  palette index it lies between 0 and 7, so the clamp of the plain variant changes nothing.
\<close>

theorem variants_agree:
  assumes "values \<noteq> []" and "0 < W" and "int (length values) \<le> 2 ^ 52"
    and "\<forall>v \<in> set values. small_sample v"
  shows "(\<exists>s. sparkline_spark values W = Inr s \<and> sparkline_rich values W = Inr s) \<and>
         (\<forall>vals lo hi. resample values W = Inr vals \<and> min_numbers vals = Inr lo \<and>
            max_numbers vals = Inr hi \<and> \<not> py_eq hi lo \<longrightarrow>
              (\<forall>v \<in> set vals. \<exists>k. level v lo hi = Inr k \<and> 0 \<le> k \<and> k \<le> 7))"
proof -
  have 1: "\<exists>s. sparkline_spark values W = Inr s \<and> sparkline_rich values W = Inr s"
    using sparkline_small [OF assms] by blast
  have 2: "\<exists>k. level v lo hi = Inr k \<and> 0 \<le> k \<and> k \<le> 7"
    if r: "resample values W = Inr vals" and l: "min_numbers vals = Inr lo"
      and h: "max_numbers vals = Inr hi" and ne: "\<not> py_eq hi lo" and v: "v \<in> set vals"
    for vals lo hi v
  proof -
    from resample_ok [OF assms(1,2,3)] r have sub: "set vals \<subseteq> set values" by auto
    with assms(4) have sm: "\<forall>v \<in> set vals. small_sample v" by auto
    from v have nonempty: "vals \<noteq> []" by auto
    from min_numbers_small [OF nonempty sm] l
    have lo: "lo \<in> set vals" "\<forall>v \<in> set vals. value_of lo \<le> value_of v" by auto
    from max_numbers_small [OF nonempty sm] h
    have hi: "hi \<in> set vals" "\<forall>v \<in> set vals. value_of v \<le> value_of hi" by auto
    have slo: "small_sample lo" and shi: "small_sample hi" and sv: "small_sample v"
      using lo(1) hi(1) v sm by auto
    have "value_of hi \<noteq> value_of lo"
      using ne small_py_eq [OF shi slo] by simp
    moreover have "value_of lo \<le> value_of hi" using lo(2) hi(1) by auto
    ultimately have lt: "value_of lo < value_of hi" by simp
    show ?thesis
      using sv slo shi lo(2) hi(2) v lt by (intro level_range) auto
  qed
  from 1 2 show ?thesis by blast
qed

theorem variants_agree_witness:
  "list_all small_sample [PyInt 10, PyInt 20, PyInt 30] \<and>
   sparkline_spark [PyInt 10, PyInt 20, PyInt 30] 6 = sparkline_rich [PyInt 10, PyInt 20, PyInt 30] 6 \<and>
   (\<exists>k. level (PyInt 20) (PyInt 10) (PyInt 30) = Inr k \<and> 0 \<le> k \<and> k \<le> 7)"
proof -
  let ?vs = "[PyInt 10, PyInt 20, PyInt 30]"
  let ?vals = "[PyInt 10, PyInt 20, PyInt 30, PyInt 30, PyInt 30, PyInt 30]"
  have sm: "list_all small_sample ?vs" by (simp add: small_sample_def)
  then have sm': "\<forall>v \<in> set ?vs. small_sample v" by (simp add: list_all_iff)
  have h: "?vs \<noteq> []" "(0::int) < 6" "int (length ?vs) \<le> 2 ^ 52" by simp_all
  note t = variants_agree [OF h sm']
  have r: "resample ?vs 6 = Inr ?vals"
    by (simp add: resample_def py_index_def numeral_eq_Suc)
  have lo: "min_numbers ?vals = Inr (PyInt 10)" by (simp add: py_lt_def exact_def)
  have hi: "max_numbers ?vals = Inr (PyInt 30)" by (simp add: py_lt_def exact_def)
  have ne: "\<not> py_eq (PyInt 30) (PyInt 10)" by (simp add: py_eq_def exact_def)
  have "\<forall>v \<in> set ?vals. \<exists>k. level v (PyInt 10) (PyInt 30) = Inr k \<and> 0 \<le> k \<and> k \<le> 7"
    using t r lo hi ne by blast
  then have 2: "\<exists>k. level (PyInt 20) (PyInt 10) (PyInt 30) = Inr k \<and> 0 \<le> k \<and> k \<le> 7"
    by simp
  from t have 1: "sparkline_spark ?vs 6 = sparkline_rich ?vs 6" by auto
  from sm 1 2 show ?thesis by (intro conjI)
qed

text \<open>
  Claim C10 at two large integers, \<open>2 ^ 60 + 200\<close> and \<open>2 ^ 60 + 511\<close>, and the float
  \<open>2 ^ 60 + 512\<close>, with width 3. The integers are subtracted exactly, \<open>v - lo = 311\<close>, but
  \<open>hi - lo\<close> converts \<open>lo\<close> to the float \<open>2 ^ 60 + 256\<close> first and is 256: the index of the
  middle sample is 8. The plain variant clamps it to 7 and returns three glyphs; the rich
  variant indexes the palette without a clamp and raises \<open>IndexError\<close>.
\<close>

theorem rich_sparkline_unclamped_index:
  "level (PyInt 1152921504606847487) (PyInt 1152921504606847176) (PyFloat (Fin 1152921504606847488)) = Inr 8 \<and>
   sparkline_spark [PyInt 1152921504606847176, PyInt 1152921504606847487, PyFloat (Fin 1152921504606847488)] 3 =
     Inr [0x2581, 0x2588, 0x2588] \<and>
   sparkline_rich [PyInt 1152921504606847176, PyInt 1152921504606847487, PyFloat (Fin 1152921504606847488)] 3 =
     Inl (IndexError (u ''index out of range''))"
proof -
  let ?a = "PyInt 1152921504606847176" and ?b = "PyInt 1152921504606847487" and ?c = "PyFloat (Fin 1152921504606847488)"
  have r: "resample [?a, ?b, ?c] 3 = Inr [?a, ?b, ?c]"
    by (simp add: resample_def py_index_def)
  have lo: "min_numbers [?a, ?b, ?c] = Inr ?a" by (simp add: py_lt_def exact_def)
  have hi: "max_numbers [?a, ?b, ?c] = Inr ?c" by (simp add: py_lt_def exact_def)
  have ne: "\<not> py_eq ?c ?a" by (simp add: py_eq_def exact_def)
  have la: "level ?a ?a ?c = Inr 0"
    by (simp add: number_ops fl_0 fl_7 fl_big_int fl_256)
  have fl_311: "fl 311 = Fin 311" using fl_int [of 311] by simp
  have lb: "level ?b ?a ?c = Inr 8"
    by (simp add: number_ops fl_7 fl_big_int fl_256 fl_311_256 fl_2177_256 fl_311)
  have lc: "level ?c ?a ?c = Inr 7"
    by (simp add: number_ops fl_1 fl_7 fl_big_int fl_256)
  have 1: "sparkline_spark [?a, ?b, ?c] 3 = Inr [0x2581, 0x2588, 0x2588]"
    by (simp add: sparkline_spark_def r lo hi ne la lb lc py_index_def SPARK_def
        del: min_numbers.simps max_numbers.simps)
  have 2: "sparkline_rich [?a, ?b, ?c] 3 = Inl (IndexError (u ''index out of range''))"
    by (simp add: sparkline_rich_def r lo hi ne la lb lc py_index_def SPARK_def
        del: min_numbers.simps max_numbers.simps)
  from lb 1 2 show ?thesis by (intro conjI)
qed


section \<open>Rescaling integer samples\<close>

lemma bindE_assoc: "bindE (bindE m f) g = bindE m (\<lambda>x. bindE (f x) g)"
  by (cases m) simp_all

lemma py_index_map: "py_index (map F xs) k = bindE (py_index xs k) (\<lambda>x. Inr (F x))"
  by (auto simp: py_index_def)

lemma pick_loop_map:
  "pick_loop (map F values) step idxs =
     bindE (pick_loop values step idxs) (\<lambda>vs. Inr (map F vs))"
proof (induction idxs)
  case Nil
  then show ?case by simp
next
  case (Cons i rest)
  show ?case
    by (simp add: Cons.IH py_index_map bindE_assoc)
qed

lemma resample_map:
  "resample (map F values) W = bindE (resample values W) (\<lambda>vs. Inr (map F vs))"
  by (simp add: resample_def pick_loop_map py_index_map bindE_assoc)

lemma pick_loop_subset: "pick_loop values step idxs = Inr vals \<Longrightarrow> set vals \<subseteq> set values"
proof (induction idxs arbitrary: vals)
  case Nil
  then show ?case by simp
next
  case (Cons i rest)
  from Cons.prems obtain p k v vs
    where "py_index values k = Inr v" and vs: "pick_loop values step rest = Inr vs"
      and vals: "vals = v # vs"
    by (auto simp: bindE_def split: sum.splits)
  then have "v \<in> set values"
    by (auto simp: py_index_def Let_def split: if_splits)
  with Cons.IH [OF vs] vals show ?case by simp
qed

lemma resample_subset:
  assumes "resample values W = Inr vals"
  shows "set vals \<subseteq> set values"
proof (cases "int (length values) > W")
  case True
  with assms obtain step where "pick_loop values step [0..<nat W] = Inr vals"
    by (auto simp: resample_def bindE_def split: sum.splits)
  then show ?thesis by (rule pick_loop_subset)
next
  case False
  with assms obtain lst where l: "py_index values (- 1) = Inr lst"
    and v: "vals = values @ replicate (nat (W - int (length values))) lst"
    by (auto simp: resample_def bindE_def split: sum.splits)
  have "lst \<in> set values"
  proof (cases "values = []")
    case True
    with l show ?thesis by (simp add: py_index_def)
  next
    case False
    with l py_index_last [OF False] have "lst = last values" by simp
    with False show ?thesis by simp
  qed
  with v show ?thesis by auto
qed

lemma rescale_py_lt:
  "0 < a \<Longrightarrow> is_int v \<Longrightarrow> is_int w \<Longrightarrow>
     py_lt (rescale_int a b v) (rescale_int a b w) = py_lt v w"
  by (cases v; cases w) (simp_all add: is_int_def rescale_int_def py_lt_def exact_def)

lemma rescale_py_eq:
  "0 < a \<Longrightarrow> is_int v \<Longrightarrow> is_int w \<Longrightarrow>
     py_eq (rescale_int a b v) (rescale_int a b w) = py_eq v w"
  by (cases v; cases w) (simp_all add: is_int_def rescale_int_def py_eq_def exact_def)

lemma fold_pick_int:
  "is_int x \<Longrightarrow> \<forall>v \<in> set xs. is_int v \<Longrightarrow> is_int (fold (\<lambda>y m. if P y m then y else m) xs x)"
  by (induction xs arbitrary: x) auto

lemma rescale_fold_min:
  assumes "0 < a"
  shows "is_int x \<Longrightarrow> \<forall>v \<in> set xs. is_int v \<Longrightarrow>
     fold (\<lambda>y m. if py_lt y m then y else m) (map (rescale_int a b) xs) (rescale_int a b x) =
     rescale_int a b (fold (\<lambda>y m. if py_lt y m then y else m) xs x)"
proof (induction xs arbitrary: x)
  case Nil
  then show ?case by simp
next
  case (Cons y ys)
  then have y: "is_int y" and ys: "\<forall>v \<in> set ys. is_int v" by auto
  have "is_int (if py_lt y x then y else x)" using y Cons.prems(1) by simp
  from Cons.IH [OF this ys] show ?case
    using rescale_py_lt [OF assms y Cons.prems(1), of b] by (simp add: if_distrib)
qed

lemma rescale_fold_max:
  assumes "0 < a"
  shows "is_int x \<Longrightarrow> \<forall>v \<in> set xs. is_int v \<Longrightarrow>
     fold (\<lambda>y m. if py_lt m y then y else m) (map (rescale_int a b) xs) (rescale_int a b x) =
     rescale_int a b (fold (\<lambda>y m. if py_lt m y then y else m) xs x)"
proof (induction xs arbitrary: x)
  case Nil
  then show ?case by simp
next
  case (Cons y ys)
  then have y: "is_int y" and ys: "\<forall>v \<in> set ys. is_int v" by auto
  have "is_int (if py_lt x y then y else x)" using y Cons.prems(1) by simp
  from Cons.IH [OF this ys] show ?case
    using rescale_py_lt [OF assms Cons.prems(1) y, of b] by (simp add: if_distrib)
qed

lemma rescale_min:
  assumes "0 < a" and "\<forall>v \<in> set vals. is_int v"
  shows "min_numbers (map (rescale_int a b) vals) =
           bindE (min_numbers vals) (\<lambda>lo. Inr (rescale_int a b lo))"
  using assms rescale_fold_min [OF assms(1)] by (cases vals) simp_all

lemma rescale_max:
  assumes "0 < a" and "\<forall>v \<in> set vals. is_int v"
  shows "max_numbers (map (rescale_int a b) vals) =
           bindE (max_numbers vals) (\<lambda>hi. Inr (rescale_int a b hi))"
  using assms rescale_fold_max [OF assms(1)] by (cases vals) simp_all

lemma rescale_level:
  assumes "0 < a" and "is_int v" and "is_int lo" and "is_int hi"
  shows "level (rescale_int a b v) (rescale_int a b lo) (rescale_int a b hi) = level v lo hi"
proof -
  from assms(2,3,4) obtain i j k where v: "v = PyInt i" "lo = PyInt j" "hi = PyInt k"
    by (auto simp: is_int_def split: number.splits)
  have 1: "a * i + b - (a * j + b) = a * (i - j)" "a * k + b - (a * j + b) = a * (k - j)"
    by (simp_all add: algebra_simps)
  have 2: "(of_int (a * (i - j)) :: rat) / of_int (a * (k - j)) = of_int (i - j) / of_int (k - j)"
    using assms(1) by simp
  have 3: "a * (k - j) = 0 \<longleftrightarrow> k - j = 0" using assms(1) by simp
  show ?thesis
    unfolding v level_def rescale_int_def
    by (simp only: number.case py_sub_def prod.case bindE_Inr 1 py_truediv_def 2 3)
qed

lemma rescale_glyphs_spark:
  assumes "0 < a" and "is_int lo" and "is_int hi"
  shows "\<forall>v \<in> set vals. is_int v \<Longrightarrow>
     glyphs_spark (map (rescale_int a b) vals) (rescale_int a b lo) (rescale_int a b hi) out =
     glyphs_spark vals lo hi out"
proof (induction vals arbitrary: out)
  case Nil
  then show ?case by simp
next
  case (Cons v rest)
  then show ?case
    using rescale_level [OF assms(1) _ assms(2,3), of v b] by simp
qed

lemma rescale_glyphs_rich:
  assumes "0 < a" and "is_int lo" and "is_int hi"
  shows "\<forall>v \<in> set vals. is_int v \<Longrightarrow>
     glyphs_rich (map (rescale_int a b) vals) (rescale_int a b lo) (rescale_int a b hi) =
     glyphs_rich vals lo hi"
proof (induction vals)
  case Nil
  then show ?case by simp
next
  case (Cons v rest)
  then show ?case
    using rescale_level [OF assms(1) _ assms(2,3), of v b] by simp
qed

lemma flat_glyphs_map: "flat_glyphs (map F vals) = flat_glyphs vals"
  by (simp add: flat_glyphs_eq)

lemma rescale_sparkline:
  assumes "0 < a" and "\<forall>v \<in> set values. is_int v"
  shows "sparkline_spark (map (rescale_int a b) values) W = sparkline_spark values W"
    and "sparkline_rich (map (rescale_int a b) values) W = sparkline_rich values W"
proof -
  let ?F = "rescale_int a b"
  have body: "bindE (min_numbers (map ?F vals)) (\<lambda>lo. bindE (max_numbers (map ?F vals)) (\<lambda>hi.
          if py_eq hi lo then flat_glyphs (map ?F vals) else glyphs_spark (map ?F vals) lo hi [])) =
        bindE (min_numbers vals) (\<lambda>lo. bindE (max_numbers vals) (\<lambda>hi.
          if py_eq hi lo then flat_glyphs vals else glyphs_spark vals lo hi []))"
    and body': "bindE (min_numbers (map ?F vals)) (\<lambda>lo. bindE (max_numbers (map ?F vals)) (\<lambda>hi.
          if py_eq hi lo then flat_glyphs (map ?F vals) else glyphs_rich (map ?F vals) lo hi)) =
        bindE (min_numbers vals) (\<lambda>lo. bindE (max_numbers vals) (\<lambda>hi.
          if py_eq hi lo then flat_glyphs vals else glyphs_rich vals lo hi))"
    if ints: "\<forall>v \<in> set vals. is_int v" for vals
  proof -
    show "bindE (min_numbers (map ?F vals)) (\<lambda>lo. bindE (max_numbers (map ?F vals)) (\<lambda>hi.
          if py_eq hi lo then flat_glyphs (map ?F vals) else glyphs_spark (map ?F vals) lo hi [])) =
        bindE (min_numbers vals) (\<lambda>lo. bindE (max_numbers vals) (\<lambda>hi.
          if py_eq hi lo then flat_glyphs vals else glyphs_spark vals lo hi []))"
    proof (cases vals)
      case Nil
      then show ?thesis by simp
    next
      case (Cons x xs)
      then have ne: "vals \<noteq> []" by simp
      from min_numbers_mem [OF ne] obtain lo where lo: "min_numbers vals = Inr lo" "lo \<in> set vals"
        by blast
      from max_numbers_mem [OF ne] obtain hi where hi: "max_numbers vals = Inr hi" "hi \<in> set vals"
        by blast
      have il: "is_int lo" and ih: "is_int hi" using lo(2) hi(2) ints by auto
      show ?thesis
        unfolding rescale_min [OF assms(1) ints] rescale_max [OF assms(1) ints] lo(1) hi(1)
        using rescale_py_eq [OF assms(1) ih il, of b]
          rescale_glyphs_spark [OF assms(1) il ih ints, of b "[]"]
        by (simp add: flat_glyphs_map)
    qed
    show "bindE (min_numbers (map ?F vals)) (\<lambda>lo. bindE (max_numbers (map ?F vals)) (\<lambda>hi.
          if py_eq hi lo then flat_glyphs (map ?F vals) else glyphs_rich (map ?F vals) lo hi)) =
        bindE (min_numbers vals) (\<lambda>lo. bindE (max_numbers vals) (\<lambda>hi.
          if py_eq hi lo then flat_glyphs vals else glyphs_rich vals lo hi))"
    proof (cases vals)
      case Nil
      then show ?thesis by simp
    next
      case (Cons x xs)
      then have ne: "vals \<noteq> []" by simp
      from min_numbers_mem [OF ne] obtain lo where lo: "min_numbers vals = Inr lo" "lo \<in> set vals"
        by blast
      from max_numbers_mem [OF ne] obtain hi where hi: "max_numbers vals = Inr hi" "hi \<in> set vals"
        by blast
      have il: "is_int lo" and ih: "is_int hi" using lo(2) hi(2) ints by auto
      show ?thesis
        unfolding rescale_min [OF assms(1) ints] rescale_max [OF assms(1) ints] lo(1) hi(1)
        using rescale_py_eq [OF assms(1) ih il, of b]
          rescale_glyphs_rich [OF assms(1) il ih ints, of b]
        by (simp add: flat_glyphs_map)
    qed
  qed
  show "sparkline_spark (map ?F values) W = sparkline_spark values W"
  proof (cases "resample values W")
    case (Inl e)
    then show ?thesis by (simp add: sparkline_spark_def resample_map)
  next
    case (Inr vals)
    with resample_subset [OF Inr] assms(2) have "\<forall>v \<in> set vals. is_int v" by auto
    from body [OF this] Inr show ?thesis
      by (simp add: sparkline_spark_def resample_map)
  qed
  show "sparkline_rich (map ?F values) W = sparkline_rich values W"
  proof (cases "resample values W")
    case (Inl e)
    then show ?thesis by (simp add: sparkline_rich_def resample_map)
  next
    case (Inr vals)
    with resample_subset [OF Inr] assms(2) have "\<forall>v \<in> set vals. is_int v" by auto
    from body' [OF this] Inr show ?thesis
      by (simp add: sparkline_rich_def resample_map)
  qed
qed


text \<open>
  Claim C5, as the code has it. For integer samples, a positive integer factor \<open>a\<close> and an
  integer offset \<open>b\<close>, the rescaling \<open>v \<mapsto> a * v + b\<close> is exact and leaves the result of both
  variants unchanged, for every width: the differences \<open>v - lo\<close> and \<open>hi - lo\<close> are exact
  integers and their quotient is rounded once.
\<close>

theorem rescaling_integers_keeps_glyphs:
  assumes "0 < a"
  shows "(\<forall>i. affine (PyInt a) (PyInt b) (PyInt i) = Inr (PyInt (a * i + b))) \<and>
         sparkline_spark (map (\<lambda>i. PyInt (a * i + b)) xs) W = sparkline_spark (map PyInt xs) W \<and>
         sparkline_rich (map (\<lambda>i. PyInt (a * i + b)) xs) W = sparkline_rich (map PyInt xs) W"
proof -
  have m: "map (rescale_int a b) (map PyInt xs) = map (\<lambda>i. PyInt (a * i + b)) xs"
    by (simp add: rescale_int_def)
  have ints: "\<forall>v \<in> set (map PyInt xs). is_int v"
    by (simp add: is_int_def)
  have "affine (PyInt a) (PyInt b) (PyInt i) = Inr (PyInt (a * i + b))" for i
    by (simp add: affine_def py_mul_def py_add_def)
  moreover have "sparkline_spark (map (\<lambda>i. PyInt (a * i + b)) xs) W = sparkline_spark (map PyInt xs) W"
    using rescale_sparkline(1) [OF assms ints, of b W] unfolding m .
  moreover have "sparkline_rich (map (\<lambda>i. PyInt (a * i + b)) xs) W = sparkline_rich (map PyInt xs) W"
    using rescale_sparkline(2) [OF assms ints, of b W] unfolding m .
  ultimately show ?thesis by blast
qed

theorem rescaling_integers_keeps_glyphs_witness:
  "(0::int) < 2 \<and>
   affine (PyInt 2) (PyInt 1) (PyInt 20) = Inr (PyInt 41) \<and>
   sparkline_spark [PyInt 21, PyInt 41, PyInt 61] 6 = sparkline_spark [PyInt 10, PyInt 20, PyInt 30] 6 \<and>
   sparkline_rich [PyInt 21, PyInt 41, PyInt 61] 6 = sparkline_rich [PyInt 10, PyInt 20, PyInt 30] 6"
proof -
  have a: "(0::int) < 2" by simp
  from rescaling_integers_keeps_glyphs [OF a, of 1 "[10, 20, 30]" 6] a show ?thesis
    by simp
qed

text \<open>
  The floats 0.0, 0.1, 0.7 and their images 1.0, 1.2, 2.4 under \<open>v \<mapsto> 2.0 * v + 1.0\<close>: the
  middle sample has index 1 before the rescaling and index 0 after it, because the differences
  and the quotient are rounded.
\<close>

theorem rescaling_floats_counterexample:
  "affine (PyFloat (Fin 2)) (PyFloat (Fin 1)) (PyFloat (Fin 0)) = Inr (PyFloat (Fin 1)) \<and>
   affine (PyFloat (Fin 2)) (PyFloat (Fin 1)) (PyFloat (Fin dbl_0_1)) = Inr (PyFloat (Fin dbl_1_2)) \<and>
   affine (PyFloat (Fin 2)) (PyFloat (Fin 1)) (PyFloat (Fin dbl_0_7)) = Inr (PyFloat (Fin dbl_2_4)) \<and>
   sparkline_spark [PyFloat (Fin 0), PyFloat (Fin dbl_0_1), PyFloat (Fin dbl_0_7)] 3 =
     Inr [0x2581, 0x2582, 0x2588] \<and>
   sparkline_spark [PyFloat (Fin 1), PyFloat (Fin dbl_1_2), PyFloat (Fin dbl_2_4)] 3 =
     Inr [0x2581, 0x2581, 0x2588] \<and>
   sparkline_rich [PyFloat (Fin 0), PyFloat (Fin dbl_0_1), PyFloat (Fin dbl_0_7)] 3 =
     Inr [0x2581, 0x2582, 0x2588] \<and>
   sparkline_rich [PyFloat (Fin 1), PyFloat (Fin dbl_1_2), PyFloat (Fin dbl_2_4)] 3 =
     Inr [0x2581, 0x2581, 0x2588]"
proof -
  let ?a0 = "PyFloat (Fin 0)" and ?a1 = "PyFloat (Fin dbl_0_1)" and ?a7 = "PyFloat (Fin dbl_0_7)"
  let ?b0 = "PyFloat (Fin 1)" and ?b1 = "PyFloat (Fin dbl_1_2)" and ?b7 = "PyFloat (Fin dbl_2_4)"
  have lo1: "min_numbers [?a0, ?a1, ?a7] = Inr ?a0" and hi1: "max_numbers [?a0, ?a1, ?a7] = Inr ?a7"
    and ne1: "\<not> py_eq ?a7 ?a0"
    by (simp_all add: py_lt_def py_eq_def exact_def doubles)
  have lo2: "min_numbers [?b0, ?b1, ?b7] = Inr ?b0" and hi2: "max_numbers [?b0, ?b1, ?b7] = Inr ?b7"
    and ne2: "\<not> py_eq ?b7 ?b0"
    by (simp_all add: py_lt_def py_eq_def exact_def doubles)
  have g: "SPARK ! nat 0 = 0x2581" "SPARK ! nat 1 = 0x2582" "SPARK ! nat 7 = 0x2588"
    by (simp_all add: SPARK_def numeral_eq_Suc)
  have s1: "sparkline_spark [?a0, ?a1, ?a7] 3 = Inr [0x2581, 0x2582, 0x2588]"
    unfolding g [symmetric] by (rule sparkline_3(1) [OF lo1 hi1 ne1 example_levels_1]) simp_all
  have s2: "sparkline_spark [?b0, ?b1, ?b7] 3 = Inr [0x2581, 0x2581, 0x2588]"
    unfolding g [symmetric] by (rule sparkline_3(1) [OF lo2 hi2 ne2 example_levels_2]) simp_all
  have s3: "sparkline_rich [?a0, ?a1, ?a7] 3 = Inr [0x2581, 0x2582, 0x2588]"
    unfolding g [symmetric] by (rule sparkline_3(2) [OF lo1 hi1 ne1 example_levels_1]) simp_all
  have s4: "sparkline_rich [?b0, ?b1, ?b7] 3 = Inr [0x2581, 0x2581, 0x2588]"
    unfolding g [symmetric] by (rule sparkline_3(2) [OF lo2 hi2 ne2 example_levels_2]) simp_all
  show ?thesis
    by (intro conjI) (fact example_affine s1 s2 s3 s4)+
qed

end
